theory Spec2Isabelle
  imports Main "HOL-Library.Word"
begin

unbundle bit_operations_syntax

section \<open>Python values used by \<open>oamap/source/parquet.py\<close>\<close>

text \<open>
  Exceptions are values. One constructor per Python exception class that the module can
  raise; the string is the fixed part of the message (formatted arguments are left out).
  \<open>LibraryError\<close> stands for whatever the external libraries (thriftpy, snappy) raise.
\<close>

datatype error =
    ImportError string
  | TypeError string
  | ValueError string
  | IOError string
  | IndexError string
  | AttributeError string
  | NameError string
  | AssertionError string
  | NotImplementedError string
  | LibraryError string

type_synonym byte = "8 word"

text \<open>Python's \<open>xs[start:stop]\<close> with integer bounds: negative bounds count from the end,
  and both bounds are clamped to the sequence.\<close>

definition py_slice :: "'a list \<Rightarrow> int \<Rightarrow> int \<Rightarrow> 'a list" where
  "py_slice xs start stop =
     (let n = int (length xs);
          s = (if start < 0 then max (start + n) 0 else min start n);
          e = (if stop < 0 then max (stop + n) 0 else min stop n)
      in take (nat (e - s)) (drop (nat s) xs))"

text \<open>\<open>xs[start:]\<close>.\<close>

definition py_slice_from :: "'a list \<Rightarrow> int \<Rightarrow> 'a list" where
  "py_slice_from xs start = py_slice xs start (int (length xs))"

text \<open>\<open>xs[i]\<close> on a Python list: negative indices count from the end, out of range raises.\<close>

definition py_index :: "'a list \<Rightarrow> int \<Rightarrow> error + 'a" where
  "py_index xs i =
     (if 0 \<le> i \<and> i < int (length xs) then Inr (xs ! nat i)
      else if i < 0 \<and> - int (length xs) \<le> i then Inr (xs ! nat (int (length xs) + i))
      else Inl (IndexError ''list index out of range''))"

subsection \<open>Numpy arrays and little-endian views\<close>

text \<open>The unsigned little-endian number held by a run of bytes, and its inverse on a
  fixed number of bytes.\<close>

fun le_nat :: "byte list \<Rightarrow> nat" where
  "le_nat [] = 0"
| "le_nat (b # bs) = unat b + 256 * le_nat bs"

fun nat_bytes :: "nat \<Rightarrow> nat \<Rightarrow> byte list" where
  "nat_bytes 0 x = []"
| "nat_bytes (Suc n) x = word_of_nat (x mod 256) # nat_bytes n (x div 256)"

text \<open>Consecutive items of \<open>w\<close> elements each.\<close>

definition chunks :: "nat \<Rightarrow> 'a list \<Rightarrow> 'a list list" where
  "chunks w xs = map (\<lambda>i. take w (drop (i * w) xs)) [0..<length xs div w]"

text \<open>
  A one-dimensional numpy array, by dtype. \<open><i4\<close> and \<open><i8\<close> items are machine words
  (read as signed with \<open>sint\<close>); \<open><f4\<close> and \<open><f8\<close> items are kept as their IEEE bit
  patterns, since the module never computes with them; \<open>S12\<close> items are 12-byte records.
\<close>

datatype ndarray =
    Int32Array "32 word list"
  | Int64Array "64 word list"
  | String12Array "byte list list"
  | Float32Array "32 word list"
  | Float64Array "64 word list"

text \<open>\<open>data.view(dtype)\<close> on a flat \<open>uint8\<close> array: numpy raises ValueError unless the
  byte count is a multiple of the item size.\<close>

definition view_words :: "nat \<Rightarrow> byte list \<Rightarrow> error + ('a::len word) list" where
  "view_words w data =
     (if length data mod w \<noteq> 0
      then Inl (ValueError ''new type not compatible with array'')
      else Inr (map (\<lambda>c. word_of_nat (le_nat c)) (chunks w data)))"

definition view_records :: "nat \<Rightarrow> byte list \<Rightarrow> error + byte list list" where
  "view_records w data =
     (if length data mod w \<noteq> 0
      then Inl (ValueError ''new type not compatible with array'')
      else Inr (chunks w data))"

text \<open>Item count, item size and the underlying bytes (\<open>arr.tobytes()\<close>) of an array.\<close>

fun array_len :: "ndarray \<Rightarrow> nat" where
  "array_len (Int32Array ws) = length ws"
| "array_len (Int64Array ws) = length ws"
| "array_len (String12Array rs) = length rs"
| "array_len (Float32Array ws) = length ws"
| "array_len (Float64Array ws) = length ws"

fun tobytes :: "ndarray \<Rightarrow> byte list" where
  "tobytes (Int32Array ws) = concat (map (\<lambda>w. nat_bytes 4 (unat w)) ws)"
| "tobytes (Int64Array ws) = concat (map (\<lambda>w. nat_bytes 8 (unat w)) ws)"
| "tobytes (String12Array rs) = concat rs"
| "tobytes (Float32Array ws) = concat (map (\<lambda>w. nat_bytes 4 (unat w)) ws)"
| "tobytes (Float64Array ws) = concat (map (\<lambda>w. nat_bytes 8 (unat w)) ws)"

text \<open>
  \<open>numpy.concatenate\<close> on a list of flat arrays. All segments of one column read come
  from the same column type and so share a dtype; numpy's type promotion for mixed dtypes
  is not modelled and is reported as an error value.
\<close>

fun append_array :: "ndarray \<Rightarrow> ndarray \<Rightarrow> error + ndarray" where
  "append_array (Int32Array xs) (Int32Array ys) = Inr (Int32Array (xs @ ys))"
| "append_array (Int64Array xs) (Int64Array ys) = Inr (Int64Array (xs @ ys))"
| "append_array (String12Array xs) (String12Array ys) = Inr (String12Array (xs @ ys))"
| "append_array (Float32Array xs) (Float32Array ys) = Inr (Float32Array (xs @ ys))"
| "append_array (Float64Array xs) (Float64Array ys) = Inr (Float64Array (xs @ ys))"
| "append_array _ _ = Inl (TypeError ''mixed dtypes'')"

fun concatenate :: "ndarray list \<Rightarrow> error + ndarray" where
  "concatenate [] = Inl (ValueError ''need at least one array to concatenate'')"
| "concatenate [a] = Inr a"
| "concatenate (a # b # bs) =
     (case concatenate (b # bs) of
        Inl e \<Rightarrow> Inl e
      | Inr r \<Rightarrow> append_array a r)"

section \<open>Thrift structures of the Parquet footer and page headers\<close>

text \<open>
  The enumerations are declared in \<open>parquet.thrift\<close>, which is not among the sources;
  thriftpy reads an enumeration field as its integer tag. The tags that the module names
  are constructors here, and every other tag value is kept under the last constructor.
\<close>

datatype FieldRepetitionType = REQUIRED | OPTIONAL | REPEATED

datatype Type =
    BOOLEAN | INT32 | INT64 | INT96 | FLOAT | DOUBLE | BYTE_ARRAY | FIXED_LEN_BYTE_ARRAY
  | UnrecognizedType int

datatype CompressionCodec =
    UNCOMPRESSED | SNAPPY | GZIP | LZO | BROTLI | LZ4 | ZSTD
  | UnrecognizedCodec int

datatype Encoding = PLAIN | PLAIN_DICTIONARY | OtherEncoding int

text \<open>
  The fields the module reads. A field is optional here where the module itself tests it
  for \<open>None\<close> or where valid files leave it out (\<open>repetition_type\<close> of the root,
  \<open>data_page_header\<close> of a page that is not a data page); the other fields are taken as
  present.
\<close>

record ColumnMetaData =
  type :: Type
  path_in_schema :: "string list"
  codec :: CompressionCodec
  num_values :: int

record ColumnChunk =
  file_offset :: int
  meta_data :: ColumnMetaData

record RowGroup =
  columns :: "ColumnChunk list"

record DataPageHeader =
  num_values :: int
  encoding :: Encoding

record PageHeader =
  compressed_page_size :: "int option"
  uncompressed_page_size :: "int option"
  data_page_header :: "DataPageHeader option"

text \<open>
  A schema element as thriftpy reads it (\<open>name\<close>, \<open>repetition_type\<close>, \<open>num_children\<close>),
  together with the attributes that \<open>recurse\<close> attaches to the object in place:
  \<open>children\<close>, \<open>path\<close>, \<open>required\<close>, \<open>maxdef\<close> and \<open>maxrep\<close>. \<open>attrs = None\<close> is an
  element that \<open>recurse\<close> has not visited, on which reading one of them raises
  AttributeError. Python's \<open>children\<close> holds references to elements of
  \<open>footer.schema\<close>; here it holds their indices in that list.
\<close>

record SchemaAttrs =
  children :: "nat list"
  path :: "string list"
  required :: bool
  maxdef :: int
  maxrep :: int

record SchemaElement =
  name :: string
  repetition_type :: "FieldRepetitionType option"
  num_children :: "int option"
  attrs :: "SchemaAttrs option"

record FileMetaData =
  schema :: "SchemaElement list"
  row_groups :: "RowGroup list"

section \<open>File handles and Thrift transports\<close>

text \<open>
  The constructor accepts a flat numpy byte array (\<open>self.memmap\<close>) or an object with
  \<open>read\<close> and \<open>seek\<close> (\<open>self.file\<close>). The latter is modelled as a binary file opened
  for reading: its bytes and a cursor. \<open>read(n)\<close> returns at most \<open>n\<close> bytes from the
  cursor and advances it (everything up to the end when \<open>n\<close> is \<open>None\<close> or negative);
  a seek to a negative position fails.
\<close>

record stream =
  content :: "byte list"
  pos :: nat

datatype FileHandle = Memmap "byte list" | FileObj stream

definition file_read :: "int option \<Rightarrow> stream \<Rightarrow> byte list \<times> stream" where
  "file_read n f =
     (let rest = drop (pos f) (content f);
          out = (case n of
                   None \<Rightarrow> rest
                 | Some k \<Rightarrow> if k < 0 then rest else take (nat k) rest)
      in (out, f\<lparr>pos := pos f + length out\<rparr>))"

text \<open>\<open>file.seek(offset, os.SEEK_SET)\<close> and \<open>file.seek(offset, os.SEEK_END)\<close>.\<close>

definition file_seek_set :: "int \<Rightarrow> stream \<Rightarrow> error + stream" where
  "file_seek_set offset f =
     (if offset < 0 then Inl (IOError ''Invalid argument'') else Inr (f\<lparr>pos := nat offset\<rparr>))"

definition file_seek_end :: "int \<Rightarrow> stream \<Rightarrow> error + stream" where
  "file_seek_end offset f =
     (let p = int (length (content f)) + offset
      in if p < 0 then Inl (IOError ''Invalid argument'') else Inr (f\<lparr>pos := nat p\<rparr>))"

text \<open>
  \<open>TFileTransport._read(bytes)\<close>, for each of the two transports that the constructor
  defines. The state of the array transport is its \<open>_index\<close>; the state of the file
  transport is the file itself.
\<close>

type_synonym 's transport_read = "int \<Rightarrow> 's \<Rightarrow> (error + byte list) \<times> 's"

definition TFileTransport_memmap_read :: "byte list \<Rightarrow> int transport_read" where
  "TFileTransport_memmap_read memmap bytes index =
     (if \<not> (0 \<le> index \<and> index < int (length memmap))
      then (Inl (IOError ''seek point is beyond array''), index)
      else (Inr (py_slice memmap index (index + bytes)), index + bytes))"

definition TFileTransport_file_read :: "stream transport_read" where
  "TFileTransport_file_read bytes file =
     (let (out, file') = file_read (Some bytes) file in (Inr out, file'))"

text \<open>
  The Thrift compact-protocol decoder is the external package thriftpy. It is a parameter
  of the model: \<open>struct.read(pin)\<close> is a function that is handed the transport's
  \<open>_read\<close> and the transport's state, and returns the decoded structure (or the
  exception raised) and the state the transport is left in. There is one such function for
  each structure read and each transport.
\<close>

type_synonym ('s, 'a) thrift_read = "'s transport_read \<Rightarrow> 's \<Rightarrow> (error + 'a) \<times> 's"

record thriftpy =
  FileMetaData_read_memmap :: "(int, FileMetaData) thrift_read"
  FileMetaData_read_file :: "(stream, FileMetaData) thrift_read"
  PageHeader_read_memmap :: "(int, PageHeader) thrift_read"
  PageHeader_read_file :: "(stream, PageHeader) thrift_read"

text \<open>\<open>snappy.decompress\<close>, from the optional package python-snappy.\<close>

type_synonym snappy = "byte list \<Rightarrow> error + byte list"

text \<open>The state of a \<open>ParquetFile\<close> object: the handle, the footer with the schema
  elements as enriched by the constructor, and \<open>self.fields\<close> (as indices into
  \<open>footer.schema\<close>; \<open>fields\<close> is taken by the record package).\<close>

record ParquetFile =
  handle :: FileHandle
  footer :: FileMetaData
  fields_list :: "nat list"

section \<open>The PLAIN value decoder\<close>

text \<open>\<open>ParquetFile._plain(data, metadata)\<close>.\<close>

definition plain :: "byte list \<Rightarrow> ColumnMetaData \<Rightarrow> error + ndarray" where
  "plain data metadata =
     (case type metadata of
        BOOLEAN \<Rightarrow> Inl (NotImplementedError [])
      | INT32 \<Rightarrow> map_sum id Int32Array (view_words 4 data)
      | INT64 \<Rightarrow> map_sum id Int64Array (view_words 8 data)
      | INT96 \<Rightarrow> map_sum id String12Array (view_records 12 data)
      | FLOAT \<Rightarrow> map_sum id Float32Array (view_words 4 data)
      | DOUBLE \<Rightarrow> map_sum id Float64Array (view_words 8 data)
      | BYTE_ARRAY \<Rightarrow> Inl (NotImplementedError [])
      | FIXED_LEN_BYTE_ARRAY \<Rightarrow> Inl (NotImplementedError [])
      | UnrecognizedType t \<Rightarrow> Inl (AssertionError ''unrecognized column type''))"

text \<open>Item width in bytes of the fixed-width PLAIN types.\<close>

fun plain_width :: "Type \<Rightarrow> nat" where
  "plain_width INT32 = 4"
| "plain_width INT64 = 8"
| "plain_width FLOAT = 4"
| "plain_width DOUBLE = 8"
| "plain_width _ = 0"

section \<open>The constructor: schema flattening\<close>

text \<open>
  Lines 128-134 of \<open>recurse\<close>: the attributes set on the element at \<open>index\<close>, from the
  path and the level bounds handed down by the caller.
\<close>

definition visit :: "SchemaElement \<Rightarrow> string list \<Rightarrow> int \<Rightarrow> int \<Rightarrow> SchemaElement" where
  "visit el path0 maxdef0 maxrep0 =
     (let req = (repetition_type el = Some REQUIRED)
      in el\<lparr>num_children := Some (case num_children el of None \<Rightarrow> 0 | Some n \<Rightarrow> n),
            attrs := Some \<lparr>children = [], path = path0 @ [name el], required = req,
                           maxdef = maxdef0 + (if req then 0 else 1),
                           maxrep = maxrep0 + (if req then 1 else 0)\<rparr>\<rparr>)"

text \<open>\<open>schema.children.append(self.footer.schema[index])\<close> on an element whose
  attributes are \<open>a\<close>.\<close>

definition append_child :: "SchemaElement \<Rightarrow> SchemaAttrs \<Rightarrow> nat \<Rightarrow> SchemaElement" where
  "append_child el a c = el\<lparr>attrs := Some (a\<lparr>children := children a @ [c]\<rparr>)\<rparr>"

text \<open>
  \<open>recurse(index, path, maxdef, maxrep)\<close>, with \<open>footer.schema\<close> passed in and returned
  since the elements are updated in place. \<open>recurse_children sch parent index k\<close> is the
  \<open>for\<close> loop with \<open>k\<close> iterations left, \<open>parent\<close> being the index of the element
  called \<open>schema\<close> in the source. Both return the index of the last element consumed.
\<close>

function recurse :: "SchemaElement list \<Rightarrow> nat \<Rightarrow> string list \<Rightarrow> int \<Rightarrow> int
                       \<Rightarrow> error + (nat \<times> SchemaElement list)"
  and recurse_children :: "SchemaElement list \<Rightarrow> nat \<Rightarrow> nat \<Rightarrow> nat
                       \<Rightarrow> error + (nat \<times> SchemaElement list)"
where
  "recurse sch index path0 maxdef0 maxrep0 =
     (if length sch \<le> index then Inl (IndexError ''list index out of range'')
      else recurse_children (sch[index := visit (sch ! index) path0 maxdef0 maxrep0]) index index
             (case num_children (sch ! index) of None \<Rightarrow> 0 | Some n \<Rightarrow> nat n))"
| "recurse_children sch parent index 0 = Inr (index, sch)"
| "recurse_children sch parent index (Suc k) =
     (if length sch \<le> index + 1 then Inl (IndexError ''list index out of range'')
      else case attrs (sch ! parent) of
             None \<Rightarrow> Inl (AttributeError ''children'')
           | Some a \<Rightarrow>
               (case recurse (sch[parent := append_child (sch ! parent) a (index + 1)])
                       (index + 1) (path a) (maxdef a) (maxrep a) of
                  Inl e \<Rightarrow> Inl e
                | Inr (index', sch') \<Rightarrow> recurse_children sch' parent index' k))"
  by pat_completeness auto


text \<open>Termination rests on a property of the result: the index returned is not below
  the index given, and the list keeps its length.\<close>

termination
proof -
  have bounds:
    "recurse_recurse_children_dom (Inl (sch, index, p, md, mr)) \<Longrightarrow>
       recurse sch index p md mr = Inr (i', sch') \<Longrightarrow> index \<le> i' \<and> length sch' = length sch"
    "recurse_recurse_children_dom (Inr (sch, parent, index, k)) \<Longrightarrow>
       recurse_children sch parent index k = Inr (i', sch') \<Longrightarrow>
       index \<le> i' \<and> length sch' = length sch"
    for sch index p md mr i' sch' parent k
  proof (induction arbitrary: i' sch' and i' sch' rule: recurse_recurse_children.pinduct)
    case (1 sch index path0 maxdef0 maxrep0)
    from "1.prems" "1.hyps" have lt: "\<not> length sch \<le> index"
      by (auto simp: recurse.psimps split: if_splits)
    with "1.prems" "1.hyps"
    have "recurse_children (sch[index := visit (sch ! index) path0 maxdef0 maxrep0]) index index
            (case num_children (sch ! index) of None \<Rightarrow> 0 | Some x \<Rightarrow> nat x) = Inr (i', sch')"
      by (simp add: recurse.psimps)
    from "1.IH" [OF lt this] show ?case by simp
  next
    case (2 sch parent index)
    then show ?case by (simp add: recurse_children.psimps)
  next
    case (3 sch parent index k)
    from "3.prems" "3.hyps" have lt: "\<not> length sch \<le> index + 1"
      by (auto simp: recurse_children.psimps split: if_splits)
    with "3.prems" "3.hyps" obtain a where a: "attrs (sch ! parent) = Some a"
      by (auto simp: recurse_children.psimps split: option.splits)
    let ?sch1 = "sch[parent := append_child (sch ! parent) a (index + 1)]"
    from "3.prems" "3.hyps" lt a obtain i1 sch1 where
      r: "recurse ?sch1 (index + 1) (path a) (maxdef a) (maxrep a) = Inr (i1, sch1)"
      and c: "recurse_children sch1 parent i1 k = Inr (i', sch')"
      by (auto simp: recurse_children.psimps split: sum.splits)
    from "3.IH"(1) [OF lt a r] have b1: "index + 1 \<le> i1" "length sch1 = length sch"
      by simp_all
    from "3.IH"(2) [OF lt a r refl c] have "i1 \<le> i'" "length sch' = length sch1" by simp_all
    with b1 show ?case by simp
  qed
  show ?thesis
  proof (relation "inv_image (less_than <*lex*> less_than <*lex*> less_than)
      (\<lambda>x. case x of
          Inl (sch, index, p, md, mr) \<Rightarrow> (length sch - index, 1::nat, 0::nat)
        | Inr (sch, parent, index, k) \<Rightarrow> (length sch - index, 0, k))", goal_cases)
    case 1
    show ?case by (intro wf_inv_image wf_lex_prod wf_less_than)
  next
    case (2 sch index path0 maxdef0 maxrep0)
    then show ?case by simp
  next
    case (3 sch parent index k x2)
    then show ?case by simp
  next
    case (4 sch parent index k x2 b x y)
    from 4(3,4) have "recurse (sch[parent := append_child (sch ! parent) x2 (index + 1)])
        (index + 1) (path x2) (maxdef x2) (maxrep x2) = Inr (x, y)" by simp
    from bounds(1) [OF 4(5) this]
    have "index + 1 \<le> x" "length y = length sch" by simp_all
    with 4(1) have "length y - x \<le> length sch - index" by arith
    then show ?case by auto
  qed
qed

declare recurse.simps [simp del] recurse_children.simps [simp del]

lemma recurse_bounds:
  "recurse sch index p md mr = Inr (i', sch') \<Longrightarrow> index \<le> i' \<and> length sch' = length sch"
  "recurse_children sch parent index k = Inr (i', sch') \<Longrightarrow>
     index \<le> i' \<and> length sch' = length sch"
proof (induction sch index p md mr and sch parent index k arbitrary: i' sch' and i' sch'
    rule: recurse_recurse_children.induct)
  case (1 sch index path0 maxdef0 maxrep0)
  from "1.prems" have lt: "\<not> length sch \<le> index"
    by (auto simp: recurse.simps split: if_splits)
  with "1.prems"
  have "recurse_children (sch[index := visit (sch ! index) path0 maxdef0 maxrep0]) index index
          (case num_children (sch ! index) of None \<Rightarrow> 0 | Some x \<Rightarrow> nat x) = Inr (i', sch')"
    by (simp add: recurse.simps)
  from "1.IH" [OF lt this] show ?case by simp
next
  case (2 sch parent index)
  then show ?case by (simp add: recurse_children.simps)
next
  case (3 sch parent index k)
  from "3.prems" have lt: "\<not> length sch \<le> index + 1"
    by (auto simp: recurse_children.simps split: if_splits)
  with "3.prems" obtain a where a: "attrs (sch ! parent) = Some a"
    by (auto simp: recurse_children.simps split: option.splits)
  let ?sch1 = "sch[parent := append_child (sch ! parent) a (index + 1)]"
  from "3.prems" lt a obtain i1 sch1 where
    r: "recurse ?sch1 (index + 1) (path a) (maxdef a) (maxrep a) = Inr (i1, sch1)"
    and c: "recurse_children sch1 parent i1 k = Inr (i', sch')"
    by (auto simp: recurse_children.simps split: sum.splits)
  from "3.IH"(1) [OF lt a r] have b1: "index + 1 \<le> i1" "length sch1 = length sch" by simp_all
  from "3.IH"(2) [OF lt a r refl c] have "i1 \<le> i'" "length sch' = length sch1" by simp_all
  with b1 show ?case by simp
qed

text \<open>The \<open>while index + 1 < len(self.footer.schema)\<close> loop that collects
  \<open>self.fields\<close>.\<close>

function fields_loop :: "SchemaElement list \<Rightarrow> nat \<Rightarrow> nat list
                           \<Rightarrow> error + (nat list \<times> SchemaElement list)" where
  "fields_loop sch index fs =
     (if index + 1 < length sch then
        (case recurse sch (index + 1) [] 0 0 of
           Inl e \<Rightarrow> Inl e
         | Inr (index', sch') \<Rightarrow> fields_loop sch' index' (fs @ [index + 1]))
      else Inr (fs, sch))"
  by pat_completeness auto
termination
proof (relation "measure (\<lambda>(sch, index, fs). length sch - index)", goal_cases)
  case 1
  show ?case by simp
next
  case (2 sch index fs b x y)
  from 2(2,3) have "recurse sch (index + 1) [] 0 0 = Inr (x, y)" by simp
  from recurse_bounds(1) [OF this]
  have "index + 1 \<le> x" "length y = length sch" by simp_all
  with 2(1) have "length y - x < length sch - index" by arith
  then show ?case by simp
qed

declare fields_loop.simps [simp del]

section \<open>The constructor: framing and footer\<close>

text \<open>The magic bytes \<open>b"PAR1"\<close>.\<close>

definition PAR1 :: "byte list" where
  "PAR1 = [0x50, 0x41, 0x52, 0x31]"

text \<open>The end of \<open>__init__\<close>, shared by both kinds of handle: the walk over
  \<open>footer.schema\<close> that fills \<open>self.fields\<close>.\<close>

definition flatten_schema :: "FileHandle \<Rightarrow> FileMetaData \<Rightarrow> error + ParquetFile" where
  "flatten_schema h ft =
     (case fields_loop (schema ft) 0 [] of
        Inl e \<Rightarrow> Inl e
      | Inr (fs, sch) \<Rightarrow> Inr \<lparr>handle = h, footer = ft\<lparr>schema := sch\<rparr>, fields_list = fs\<rparr>)"

text \<open>
  \<open>__init__\<close> on a numpy array. \<open>footerbytes\<close> is the single \<open><i4\<close> item of
  \<open>memmap[-8:-4]\<close> (a ValueError when that slice is not exactly four bytes); sums
  with it are not confined to 32 bits. The magic numbers are compared after it is read.
\<close>

definition init_memmap :: "thriftpy \<Rightarrow> byte list \<Rightarrow> error + ParquetFile" where
  "init_memmap th memmap =
     (let headermagic = py_slice memmap 0 4;
          footermagic = py_slice_from memmap (- 4)
      in case (view_words 4 (py_slice memmap (- 8) (- 4)) :: error + 32 word list) of
           Inl e \<Rightarrow> Inl e
         | Inr [w] \<Rightarrow>
             (let footerbytes = sint w;
                  index = int (length memmap) - (footerbytes + 8)
              in if headermagic \<noteq> PAR1
                 then Inl (ValueError ''not a Parquet-formatted file: header magic'')
                 else if footermagic \<noteq> PAR1
                 then Inl (ValueError ''not a Parquet-formatted file: footer magic'')
                 else (case FileMetaData_read_memmap th (TFileTransport_memmap_read memmap) index of
                         (Inl e, _) \<Rightarrow> Inl e
                       | (Inr ft, _) \<Rightarrow> flatten_schema (Memmap memmap) ft))
         | Inr _ \<Rightarrow> Inl (ValueError ''not enough values to unpack''))"

text \<open>\<open>__init__\<close> on a file object. \<open>struct.unpack\<close> fails unless it is given four
  bytes.\<close>

definition init_file :: "thriftpy \<Rightarrow> stream \<Rightarrow> error + ParquetFile" where
  "init_file th file =
     (case file_seek_set 0 file of
        Inl e \<Rightarrow> Inl e
      | Inr f1 \<Rightarrow>
     (case file_read (Some 4) f1 of (headermagic, f2) \<Rightarrow>
     (case file_seek_end (- 4) f2 of
        Inl e \<Rightarrow> Inl e
      | Inr f3 \<Rightarrow>
     (case file_read (Some 4) f3 of (footermagic, f4) \<Rightarrow>
     (case file_seek_end (- 8) f4 of
        Inl e \<Rightarrow> Inl e
      | Inr f5 \<Rightarrow>
     (case file_read (Some 4) f5 of (raw, f6) \<Rightarrow>
       if length raw \<noteq> 4 then Inl (LibraryError ''struct.error'')
       else
         (let footerbytes = sint (word_of_nat (le_nat raw) :: 32 word)
          in case file_seek_end (- (footerbytes + 8)) f6 of
               Inl e \<Rightarrow> Inl e
             | Inr f7 \<Rightarrow>
                 if headermagic \<noteq> PAR1
                 then Inl (ValueError ''not a Parquet-formatted file: header magic'')
                 else if footermagic \<noteq> PAR1
                 then Inl (ValueError ''not a Parquet-formatted file: footer magic'')
                 else (case FileMetaData_read_file th TFileTransport_file_read f7 of
                         (Inl e, _) \<Rightarrow> Inl e
                       | (Inr ft, f8) \<Rightarrow> flatten_schema (FileObj f8) ft))))))))"

text \<open>The argument of the constructor: a numpy array with its item size and shape, an
  object with \<open>read\<close> and \<open>seek\<close>, or anything else.\<close>

datatype file_arg = NumpyArray nat "nat list" "byte list" | FileLike stream | OtherObject

text \<open>\<open>ParquetFile.__init__(file)\<close>; \<open>thriftpy\<close> is \<open>None\<close> when the import failed.\<close>

definition ParquetFile_init :: "thriftpy option \<Rightarrow> file_arg \<Rightarrow> error + ParquetFile" where
  "ParquetFile_init thriftpy_module file =
     (case thriftpy_module of
        None \<Rightarrow> Inl (ImportError ''To read Parquet files, install thriftpy'')
      | Some th \<Rightarrow>
          (case file of
             NumpyArray itemsize shape buf \<Rightarrow>
               if itemsize \<noteq> 1 \<or> length shape \<noteq> 1
               then Inl (TypeError ''if file is a Numpy array, the item size must be 1 and shape must be flat'')
               else init_memmap th buf
           | FileLike f \<Rightarrow> init_file th f
           | OtherObject \<Rightarrow> Inl (TypeError ''file must be a Numpy array or a file-like object'')))"

section \<open>The column read operation\<close>

text \<open>The \<open>for column in self.footer.row_groups[rowgroupid].columns\<close> loop: the first chunk
  whose \<open>path_in_schema\<close> equals \<open>schema.path\<close>, or \<open>None\<close>. \<open>schema.path\<close> is read
  once per chunk examined (\<open>sc\<close> is the argument \<open>schema\<close>).\<close>

fun find_column :: "ColumnChunk list \<Rightarrow> SchemaElement \<Rightarrow> error + ColumnChunk option" where
  "find_column [] sc = Inr None"
| "find_column (c # cs) sc =
     (case attrs sc of
        None \<Rightarrow> Inl (AttributeError ''path'')
      | Some a \<Rightarrow>
          if path_in_schema (meta_data c) = path a then Inr (Some c)
          else find_column cs sc)"

text \<open>
  The \<open>if\<close>/\<open>elif\<close> chain on \<open>footercolumn.meta_data.codec\<close>: it either defines
  \<open>decompress(compressed, compressedbytes, uncompressedbytes)\<close> or raises. The GZIP
  branch reads the name \<open>compresseddata\<close>, which is bound nowhere in the module, so a
  call of that \<open>decompress\<close> raises NameError.
\<close>

type_synonym decompress = "byte list \<Rightarrow> int option \<Rightarrow> int option \<Rightarrow> error + byte list"

definition codec_dispatch :: "snappy option \<Rightarrow> CompressionCodec \<Rightarrow> error + decompress" where
  "codec_dispatch snappy_module c =
     (case c of
        UNCOMPRESSED \<Rightarrow> Inr (\<lambda>compressed compressedbytes uncompressedbytes. Inr compressed)
      | SNAPPY \<Rightarrow>
          (case snappy_module of
             None \<Rightarrow> Inl (ImportError ''To read Parquet files with snappy compression, install snappy'')
           | Some snappy_decompress \<Rightarrow>
               Inr (\<lambda>compressed compressedbytes uncompressedbytes. snappy_decompress compressed))
      | GZIP \<Rightarrow>
          Inr (\<lambda>compressed compressedbytes uncompressedbytes. Inl (NameError ''compresseddata''))
      | LZO \<Rightarrow> Inl (NotImplementedError ''LZO decompression'')
      | BROTLI \<Rightarrow> Inl (NotImplementedError ''BROTLI decompression'')
      | LZ4 \<Rightarrow> Inl (NotImplementedError ''LZ4 decompression'')
      | ZSTD \<Rightarrow> Inl (NotImplementedError ''ZSTD decompression'')
      | UnrecognizedCodec t \<Rightarrow> Inl (AssertionError ''unrecognized codec''))"

text \<open>\<open>ParquetFile._bitwidth(maxvalue)\<close>.\<close>

definition bitwidth :: "int \<Rightarrow> error + int" where
  "bitwidth maxvalue = Inl (NotImplementedError [])"

text \<open>
  One step of the generator \<open>pagereader\<close>: the body of its \<open>while\<close> loop up to the
  \<open>yield\<close>. The result is the header, the compressed payload and
  \<open>header.data_page_header.num_values\<close> (by which \<open>stop\<close> exceeds \<open>start\<close>), with
  the state the reader is left in: the next \<open>index\<close> for the array, the file for the
  file object.
\<close>

definition read_page_memmap ::
  "thriftpy \<Rightarrow> byte list \<Rightarrow> int \<Rightarrow> (error + PageHeader \<times> byte list \<times> int) \<times> int" where
  "read_page_memmap th memmap index =
     (case PageHeader_read_memmap th (TFileTransport_memmap_read memmap) index of
        (Inl e, index1) \<Rightarrow> (Inl e, index1)
      | (Inr header, index1) \<Rightarrow>
          (case compressed_page_size header of
             None \<Rightarrow> (Inl (TypeError ''unsupported operand type(s) for +''), index1)
           | Some cps \<Rightarrow>
               (case data_page_header header of
                  None \<Rightarrow> (Inl (AttributeError ''num_values''), index1 + cps)
                | Some dph \<Rightarrow>
                    (Inr (header, py_slice memmap index1 (index1 + cps),
                          DataPageHeader.num_values dph),
                     index1 + cps))))"

definition read_page_file ::
  "thriftpy \<Rightarrow> stream \<Rightarrow> (error + PageHeader \<times> byte list \<times> int) \<times> stream" where
  "read_page_file th file =
     (case PageHeader_read_file th TFileTransport_file_read file of
        (Inl e, f1) \<Rightarrow> (Inl e, f1)
      | (Inr header, f1) \<Rightarrow>
          (case file_read (compressed_page_size header) f1 of
             (compressed, f2) \<Rightarrow>
               (case data_page_header header of
                  None \<Rightarrow> (Inl (AttributeError ''num_values''), f2)
                | Some dph \<Rightarrow>
                    (Inr (header, compressed, DataPageHeader.num_values dph), f2))))"

text \<open>The two generators side by side: \<open>self.memmap\<close> is left as it is and \<open>index\<close>
  moves; the file's cursor moves and \<open>index\<close> is not used again.\<close>

definition read_page ::
  "thriftpy \<Rightarrow> FileHandle \<Rightarrow> int
     \<Rightarrow> (error + PageHeader \<times> byte list \<times> int) \<times> FileHandle \<times> int" where
  "read_page th h index =
     (case h of
        Memmap memmap \<Rightarrow>
          (case read_page_memmap th memmap index of (r, index') \<Rightarrow> (r, Memmap memmap, index'))
      | FileObj file \<Rightarrow>
          (case read_page_file th file of (r, file') \<Rightarrow> (r, FileObj file', index)))"

text \<open>What runs before the first page is asked for: nothing for the array;
  \<open>file.seek(index, os.SEEK_SET)\<close> for the file object.\<close>

definition start_reader :: "FileHandle \<Rightarrow> int \<Rightarrow> error + FileHandle" where
  "start_reader h index =
     (case h of
        Memmap memmap \<Rightarrow> Inr (Memmap memmap)
      | FileObj file \<Rightarrow> map_sum id FileObj (file_seek_set index file))"

text \<open>
  The body of the \<open>for\<close> loop over the pages, up to the three segments of the page
  (lines 220-243): \<open>(deflevelseg, replevelseg, dataseg)\<close>.
\<close>

definition page_segments ::
  "decompress \<Rightarrow> SchemaAttrs \<Rightarrow> ColumnMetaData \<Rightarrow> PageHeader \<Rightarrow> byte list
     \<Rightarrow> error + ndarray option \<times> ndarray option \<times> ndarray option" where
  "page_segments decompress_fn a md header compressed =
     (case decompress_fn compressed (compressed_page_size header) (uncompressed_page_size header) of
        Inl e \<Rightarrow> Inl e
      | Inr uncompressed \<Rightarrow>
     (case (if \<not> required a
            then (case bitwidth (maxdef a) of
                    Inl e \<Rightarrow> Inl e
                  | Inr bw \<Rightarrow> if bw > 0 then Inl (NotImplementedError []) else Inr ())
            else Inr ()) of
        Inl e \<Rightarrow> Inl e
      | Inr _ \<Rightarrow>
     (case (if length (path a) > 1
            then (case bitwidth (maxrep a) of
                    Inl e \<Rightarrow> Inl e
                  | Inr bw \<Rightarrow> Inl (NotImplementedError []))
            else Inr ()) of
        Inl e \<Rightarrow> Inl e
      | Inr _ \<Rightarrow>
     (case data_page_header header of
        None \<Rightarrow> Inl (AttributeError ''encoding'')
      | Some dph \<Rightarrow>
          (case encoding dph of
             PLAIN \<Rightarrow>
               (case plain (py_slice_from uncompressed 0) md of
                  Inl e \<Rightarrow> Inl e
                | Inr dataseg \<Rightarrow> Inr (None, None, Some dataseg))
           | PLAIN_DICTIONARY \<Rightarrow> Inl (NotImplementedError [])
           | OtherEncoding t \<Rightarrow> Inl (AssertionError ''unexpected encoding''))))))"

text \<open>Lines 246-251: a segment is appended to its list when its switch is on and it is
  not \<open>None\<close>.\<close>

type_synonym segments = "ndarray list \<times> ndarray list \<times> ndarray list"

definition append_segment :: "bool \<Rightarrow> ndarray list \<Rightarrow> ndarray option \<Rightarrow> ndarray list" where
  "append_segment switch segs seg =
     (case seg of
        None \<Rightarrow> segs
      | Some s \<Rightarrow> if switch then segs @ [s] else segs)"

definition append_segments ::
  "bool \<Rightarrow> bool \<Rightarrow> bool \<Rightarrow> segments \<Rightarrow> ndarray option \<times> ndarray option \<times> ndarray option
     \<Rightarrow> segments" where
  "append_segments deflevels replevels data segs page =
     (case segs of (deflevelsegs, replevelsegs, datasegs) \<Rightarrow>
      case page of (deflevelseg, replevelseg, dataseg) \<Rightarrow>
        (append_segment deflevels deflevelsegs deflevelseg,
         append_segment replevels replevelsegs replevelseg,
         append_segment data datasegs dataseg))"

text \<open>
  The \<open>for header, compressed, start, stop in pagereader(...)\<close> loop. The generator and
  the loop body alternate: a page is read, its segments are decoded and appended, and only
  then is the next page read. The generator stops when \<open>start\<close> has reached
  \<open>footercolumn.meta_data.num_values\<close>; nothing bounds the number of pages when headers
  carry \<open>num_values \<le> 0\<close>, so the loop is a partial function and \<open>None\<close> means that
  it does not return. \<open>a\<close> holds the attributes of the argument \<open>schema\<close> and
  \<open>md\<close> is \<open>column.meta_data\<close>, which is \<open>footercolumn.meta_data\<close> after the
  \<open>break\<close>. The file handle is returned in the state the loop leaves it in.
\<close>

partial_function (option) page_loop ::
  "thriftpy \<Rightarrow> decompress \<Rightarrow> SchemaAttrs \<Rightarrow> ColumnMetaData \<Rightarrow> bool \<Rightarrow> bool \<Rightarrow> bool
     \<Rightarrow> FileHandle \<Rightarrow> int \<Rightarrow> int \<Rightarrow> segments \<Rightarrow> ((error + segments) \<times> FileHandle) option" where
  "page_loop th decompress_fn a md deflevels replevels data h index start segs =
     (if start < ColumnMetaData.num_values md then
        (case read_page th h index of
           (Inl e, h1, index1) \<Rightarrow> Some (Inl e, h1)
         | (Inr (header, compressed, n), h1, index1) \<Rightarrow>
             (case page_segments decompress_fn a md header compressed of
                Inl e \<Rightarrow> Some (Inl e, h1)
              | Inr page \<Rightarrow>
                  page_loop th decompress_fn a md deflevels replevels data h1 index1 (start + n)
                    (append_segments deflevels replevels data segs page)))
      else Some (Inr segs, h))"

text \<open>
  The generator \<open>pagereader\<close> on its own, run until it is exhausted: the tuples
  \<open>(header, compressed, start, stop)\<close> that it yields, in order.
\<close>

type_synonym page = "PageHeader \<times> byte list \<times> int \<times> int"

partial_function (option) pagereader ::
  "thriftpy \<Rightarrow> int \<Rightarrow> FileHandle \<Rightarrow> int \<Rightarrow> int \<Rightarrow> page list
     \<Rightarrow> ((error + page list) \<times> FileHandle) option" where
  "pagereader th nvalues h index start yielded =
     (if start < nvalues then
        (case read_page th h index of
           (Inl e, h1, index1) \<Rightarrow> Some (Inl e, h1)
         | (Inr (header, compressed, n), h1, index1) \<Rightarrow>
             pagereader th nvalues h1 index1 (start + n)
               (yielded @ [(header, compressed, start, start + n)]))
      else Some (Inr yielded, h))"

text \<open>Lines 253-269: the tuple \<open>out\<close>, as a list. A switch that is on adds one slot,
  \<open>None\<close> when no segment was collected.\<close>

definition output_slot :: "bool \<Rightarrow> ndarray list \<Rightarrow> error + ndarray option list" where
  "output_slot switch segs =
     (if switch then
        (if length segs = 0 then Inr [None]
         else (case concatenate segs of
                 Inl e \<Rightarrow> Inl e
               | Inr arr \<Rightarrow> Inr [Some arr]))
      else Inr [])"

definition build_output :: "bool \<Rightarrow> bool \<Rightarrow> bool \<Rightarrow> segments \<Rightarrow> error + ndarray option list" where
  "build_output deflevels replevels data segs =
     (case segs of (deflevelsegs, replevelsegs, datasegs) \<Rightarrow>
      case output_slot deflevels deflevelsegs of
        Inl e \<Rightarrow> Inl e
      | Inr out1 \<Rightarrow>
          (case output_slot replevels replevelsegs of
             Inl e \<Rightarrow> Inl e
           | Inr out2 \<Rightarrow>
               (case output_slot data datasegs of
                  Inl e \<Rightarrow> Inl e
                | Inr out3 \<Rightarrow> Inr (out1 @ out2 @ out3))))"

text \<open>
  \<open>ParquetFile.column(rowgroupid, schema, deflevels, replevels, data, parallel)\<close>. The
  result is the value returned or the exception raised, with the state of the object
  afterwards; \<open>None\<close> is a call that does not return. The not-found branch evaluates
  the name \<open>columnpath\<close>, which is bound nowhere, while building the message of its
  AssertionError, so what is raised there is NameError. The attributes of \<open>schema\<close> are
  read inside the loop in the source; they are known to be set once a chunk has been
  found, since the search has read \<open>schema.path\<close>.
\<close>

definition column ::
  "thriftpy \<Rightarrow> snappy option \<Rightarrow> ParquetFile \<Rightarrow> int \<Rightarrow> SchemaElement \<Rightarrow> bool \<Rightarrow> bool \<Rightarrow> bool
     \<Rightarrow> bool \<Rightarrow> ((error + ndarray option list) \<times> ParquetFile) option" where
  "column th snappy_module self rowgroupid sc deflevels replevels data parallel =
     (if parallel then Some (Inl (NotImplementedError []), self)
      else
     (case py_index (row_groups (footer self)) rowgroupid of
        Inl e \<Rightarrow> Some (Inl e, self)
      | Inr rg \<Rightarrow>
     (case find_column (columns rg) sc of
        Inl e \<Rightarrow> Some (Inl e, self)
      | Inr None \<Rightarrow> Some (Inl (NameError ''columnpath''), self)
      | Inr (Some footercolumn) \<Rightarrow>
     (case codec_dispatch snappy_module (codec (meta_data footercolumn)) of
        Inl e \<Rightarrow> Some (Inl e, self)
      | Inr decompress_fn \<Rightarrow>
     (case attrs sc of
        None \<Rightarrow> Some (Inl (AttributeError ''required''), self)
      | Some a \<Rightarrow>
     (case start_reader (handle self) (file_offset footercolumn) of
        Inl e \<Rightarrow> Some (Inl e, self)
      | Inr h0 \<Rightarrow>
     (case page_loop th decompress_fn a (meta_data footercolumn) deflevels replevels data
             h0 (file_offset footercolumn) 0 ([], [], []) of
        None \<Rightarrow> None
      | Some (Inl e, h1) \<Rightarrow> Some (Inl e, self\<lparr>handle := h1\<rparr>)
      | Some (Inr segs, h1) \<Rightarrow>
          Some (build_output deflevels replevels data segs, self\<lparr>handle := h1\<rparr>))))))))"

text \<open>\<open>header.data_page_header.num_values\<close> of a yielded page (every page that is
  yielded has a \<open>data_page_header\<close>), and the header and payload of a yielded tuple.\<close>

definition page_values :: "page \<Rightarrow> int" where
  "page_values p =
     (case data_page_header (fst p) of
        None \<Rightarrow> 0
      | Some dph \<Rightarrow> DataPageHeader.num_values dph)"

definition page_header :: "page \<Rightarrow> PageHeader" where
  "page_header p = fst p"

definition page_payload :: "page \<Rightarrow> byte list" where
  "page_payload p = fst (snd p)"

text \<open>The loop body decodes the yielded page \<open>p\<close> into the value array \<open>arr\<close>.\<close>

definition decoded :: "decompress \<Rightarrow> SchemaAttrs \<Rightarrow> ColumnMetaData \<Rightarrow> page \<Rightarrow> ndarray \<Rightarrow> bool" where
  "decoded decompress_fn a md p arr \<longleftrightarrow>
     page_segments decompress_fn a md (page_header p) (page_payload p) = Inr (None, None, Some arr)"

section \<open>The layout of the input\<close>

text \<open>The bytes behind a handle of either kind.\<close>

definition file_bytes :: "FileHandle \<Rightarrow> byte list" where
  "file_bytes h = (case h of Memmap memmap \<Rightarrow> memmap | FileObj file \<Rightarrow> content file)"

text \<open>
  The state in which the page reader asks for what is stored at byte \<open>off\<close> of the file
  behind \<open>h\<close>: on the array its \<open>index\<close> is \<open>off\<close>; on the file object the cursor is at
  \<open>off\<close>, wherever it was, and \<open>index\<close> is not looked at.
\<close>

definition reader_at :: "FileHandle \<Rightarrow> nat \<Rightarrow> FileHandle \<times> int \<Rightarrow> bool" where
  "reader_at h off st \<longleftrightarrow>
     (case h of
        Memmap memmap \<Rightarrow> st = (Memmap memmap, int off)
      | FileObj file \<Rightarrow> fst st = FileObj \<lparr>content = content file, pos = off\<rparr>)"

text \<open>
  What the input asks of thriftpy. At byte \<open>off\<close> the file holds an encoded page header:
  \<open>PageHeader.read\<close> on a transport placed there returns \<open>header\<close> and leaves the
  transport \<open>n\<close> bytes further on. Likewise the footer: \<open>FileMetaData.read\<close> on a transport
  placed at \<open>off\<close> returns \<open>ft\<close>, and does not change what the file holds.
\<close>

definition header_at :: "thriftpy \<Rightarrow> FileHandle \<Rightarrow> nat \<Rightarrow> nat \<Rightarrow> PageHeader \<Rightarrow> bool" where
  "header_at th h off n header \<longleftrightarrow>
     (case h of
        Memmap memmap \<Rightarrow>
          PageHeader_read_memmap th (TFileTransport_memmap_read memmap) (int off)
            = (Inr header, int (off + n))
      | FileObj file \<Rightarrow>
          PageHeader_read_file th TFileTransport_file_read \<lparr>content = content file, pos = off\<rparr>
            = (Inr header, \<lparr>content = content file, pos = off + n\<rparr>))"


text \<open>
  A page as it is stored: the number of bytes its encoded header takes, the header, and the
  payload that follows the header. \<open>pages_at th h off ps\<close> says that the file behind \<open>h\<close>
  holds the pages \<open>ps\<close> one after the other from byte \<open>off\<close>, each payload as long as its
  header's \<open>compressed_page_size\<close> says.
\<close>

record StoredPage =
  stored_header_size :: nat
  stored_header :: PageHeader
  stored_payload :: "byte list"

fun pages_at :: "thriftpy \<Rightarrow> FileHandle \<Rightarrow> nat \<Rightarrow> StoredPage list \<Rightarrow> bool" where
  "pages_at th h off [] \<longleftrightarrow> True"
| "pages_at th h off (p # ps) \<longleftrightarrow>
     header_at th h off (stored_header_size p) (stored_header p) \<and>
     compressed_page_size (stored_header p) = Some (int (length (stored_payload p))) \<and>
     take (length (stored_payload p)) (drop (off + stored_header_size p) (file_bytes h))
       = stored_payload p \<and>
     pages_at th h (off + stored_header_size p + length (stored_payload p)) ps"

text \<open>\<open>header.data_page_header.num_values\<close> of a stored page, and the tuples
  \<open>(header, compressed, start, stop)\<close> that a reader starting its count at \<open>start\<close> yields
  for stored pages.\<close>

definition stored_values :: "StoredPage \<Rightarrow> int" where
  "stored_values p =
     (case data_page_header (stored_header p) of
        None \<Rightarrow> 0
      | Some dph \<Rightarrow> DataPageHeader.num_values dph)"

fun yielded_pages :: "int \<Rightarrow> StoredPage list \<Rightarrow> page list" where
  "yielded_pages start [] = []"
| "yielded_pages start (p # ps) =
     (stored_header p, stored_payload p, start, start + stored_values p)
       # yielded_pages (start + stored_values p) ps"

text \<open>The page \<open>p\<close> decodes into the value array \<open>arr\<close>.\<close>

definition decodes_to :: "decompress \<Rightarrow> SchemaAttrs \<Rightarrow> ColumnMetaData \<Rightarrow> StoredPage \<Rightarrow> ndarray \<Rightarrow> bool" where
  "decodes_to decompress_fn a md p arr \<longleftrightarrow>
     page_segments decompress_fn a md (stored_header p) (stored_payload p)
       = Inr (None, None, Some arr)"

text \<open>\<open>arr.dtype\<close>.\<close>

fun dtype :: "ndarray \<Rightarrow> string" where
  "dtype (Int32Array ws) = ''<i4''"
| "dtype (Int64Array ws) = ''<i8''"
| "dtype (String12Array rs) = ''S12''"
| "dtype (Float32Array ws) = ''<f4''"
| "dtype (Float64Array ws) = ''<f8''"

section \<open>The bookkeeping rule of the schema walk, as predicates\<close>

text \<open>
  The element \<open>el\<close> carries the attributes that \<open>recurse\<close> computes from the level
  bounds \<open>(maxdef0, maxrep0)\<close> handed down to it: \<open>required\<close> tells whether its
  repetition type is REQUIRED, \<open>maxdef\<close> is one more than \<open>maxdef0\<close> unless it is
  required, and \<open>maxrep\<close> is one more than \<open>maxrep0\<close> when it is required.
\<close>

definition levels_from :: "SchemaElement \<Rightarrow> int \<Rightarrow> int \<Rightarrow> bool" where
  "levels_from el maxdef0 maxrep0 \<longleftrightarrow>
     (case attrs el of
        None \<Rightarrow> False
      | Some a \<Rightarrow>
          required a = (repetition_type el = Some REQUIRED) \<and>
          maxdef a = maxdef0 + (if required a then 0 else 1) \<and>
          maxrep a = maxrep0 + (if required a then 1 else 0))"

text \<open>The element at \<open>i\<close> is listed among the children of the element at \<open>p\<close> and
  has its levels from those of \<open>p\<close>.\<close>

definition child_of :: "SchemaElement list \<Rightarrow> nat \<Rightarrow> nat \<Rightarrow> bool" where
  "child_of sch p i \<longleftrightarrow>
     (case attrs (sch ! p) of
        None \<Rightarrow> False
      | Some pa \<Rightarrow> i \<in> set (children pa) \<and> levels_from (sch ! i) (maxdef pa) (maxrep pa))"

text \<open>The element at \<open>i\<close> is a top-level field with its levels from \<open>(0, 0)\<close>, or the
  child of an earlier element other than the root.\<close>

definition visited_from_parent :: "SchemaElement list \<Rightarrow> nat list \<Rightarrow> nat \<Rightarrow> bool" where
  "visited_from_parent sch fs i \<longleftrightarrow>
     (i \<in> set fs \<and> levels_from (sch ! i) 0 0) \<or>
     (\<exists>p \<in> {1..<i}. child_of sch p i)"

section \<open>Concrete inputs\<close>

definition md_int32 :: ColumnMetaData where
  "md_int32 = \<lparr>type = INT32, path_in_schema = [''x''], codec = UNCOMPRESSED,
     ColumnMetaData.num_values = 3\<rparr>"

text \<open>
  A stand-in for the Thrift decoder, for running the model on concrete files. A page
  header is three bytes read through the transport: the payload size, the number of
  values and the encoding tag (0 for PLAIN, 2 for PLAIN_DICTIONARY). The footer is handed
  over as it is.
\<close>

definition example_header :: "byte \<Rightarrow> byte \<Rightarrow> byte \<Rightarrow> PageHeader" where
  "example_header sz n enc =
     \<lparr>compressed_page_size = Some (uint sz),
      uncompressed_page_size = Some (uint sz),
      data_page_header = Some \<lparr>DataPageHeader.num_values = uint n,
        encoding = (if enc = 0 then PLAIN
                    else if enc = 2 then PLAIN_DICTIONARY
                    else OtherEncoding (uint enc))\<rparr>\<rparr>"

definition example_PageHeader_read :: "('s, PageHeader) thrift_read" where
  "example_PageHeader_read rd s =
     (case rd 3 s of
        (Inl e, s') \<Rightarrow> (Inl e, s')
      | (Inr [sz, n, enc], s') \<Rightarrow> (Inr (example_header sz n enc), s')
      | (Inr _, s') \<Rightarrow> (Inl (LibraryError ''EOF''), s'))"

definition example_thriftpy :: "FileMetaData \<Rightarrow> thriftpy" where
  "example_thriftpy ft =
     \<lparr>FileMetaData_read_memmap = (\<lambda>rd s. (Inr ft, s)),
      FileMetaData_read_file = (\<lambda>rd s. (Inr ft, s)),
      PageHeader_read_memmap = example_PageHeader_read,
      PageHeader_read_file = example_PageHeader_read\<rparr>"

text \<open>A file with one row group holding one INT32 column \<open>x\<close> whose first page is at
  offset 4: the magic, the pages, a one-byte footer region, its length and the magic.\<close>

definition example_schema :: "FieldRepetitionType \<Rightarrow> SchemaElement list" where
  "example_schema rt =
     [\<lparr>name = ''schema'', repetition_type = None, num_children = Some 1, attrs = None\<rparr>,
      \<lparr>name = ''x'', repetition_type = Some rt, num_children = None, attrs = None\<rparr>]"

definition example_chunk :: "CompressionCodec \<Rightarrow> int \<Rightarrow> ColumnChunk" where
  "example_chunk c nv =
     \<lparr>file_offset = 4, meta_data = md_int32\<lparr>codec := c, ColumnMetaData.num_values := nv\<rparr>\<rparr>"

definition example_footer :: "FieldRepetitionType \<Rightarrow> CompressionCodec \<Rightarrow> int \<Rightarrow> FileMetaData" where
  "example_footer rt c nv =
     \<lparr>schema = example_schema rt, row_groups = [\<lparr>columns = [example_chunk c nv]\<rparr>]\<rparr>"

definition example_file :: "byte list \<Rightarrow> byte list" where
  "example_file pages = PAR1 @ pages @ [0] @ [1, 0, 0, 0] @ PAR1"

text \<open>One PLAIN page with the three values 1, 2, 3.\<close>

definition page_123 :: "byte list" where
  "page_123 = [12, 3, 0] @ [1, 0, 0, 0, 2, 0, 0, 0, 3, 0, 0, 0]"

text \<open>The attributes that the constructor gives the column \<open>x\<close> of \<open>example_schema\<close>, and
  the schema after the constructor has run.\<close>

definition example_attrs :: "FieldRepetitionType \<Rightarrow> SchemaAttrs" where
  "example_attrs rt =
     \<lparr>children = [], path = [''x''], required = (rt = REQUIRED),
      maxdef = (if rt = REQUIRED then 0 else 1), maxrep = (if rt = REQUIRED then 1 else 0)\<rparr>"

definition example_column :: "FieldRepetitionType \<Rightarrow> SchemaElement" where
  "example_column rt =
     \<lparr>name = ''x'', repetition_type = Some rt, num_children = Some 0,
      attrs = Some (example_attrs rt)\<rparr>"

definition example_ParquetFile ::
  "byte list \<Rightarrow> FieldRepetitionType \<Rightarrow> CompressionCodec \<Rightarrow> int \<Rightarrow> ParquetFile" where
  "example_ParquetFile pages rt c nv =
     \<lparr>handle = Memmap (example_file pages),
      footer = \<lparr>schema = [\<lparr>name = ''schema'', repetition_type = None, num_children = Some 1,
                            attrs = None\<rparr>, example_column rt],
                row_groups = [\<lparr>columns = [example_chunk c nv]\<rparr>]\<rparr>,
      fields_list = [1]\<rparr>"

text \<open>A schema node for a column \<open>y\<close> that the example file does not have.\<close>

definition missing_column :: SchemaElement where
  "missing_column = \<lparr>name = ''y'', repetition_type = Some REQUIRED, num_children = Some 0,
     attrs = Some \<lparr>children = [], path = [''y''], required = True, maxdef = 0, maxrep = 1\<rparr>\<rparr>"

text \<open>One page whose payload is the gzip member that holds the twelve bytes of 1, 2, 3
  (what \<open>gzip\<close> writes for them at level 9 with a zero timestamp).\<close>

definition page_gzip :: "byte list" where
  "page_gzip = [29, 3, 0] @
     [31, 139, 8, 0, 0, 0, 0, 0, 2, 255, 99, 100, 96, 96, 96, 2, 98, 102, 32, 6, 0,
      147, 34, 224, 176, 12, 0, 0, 0]"

text \<open>The same three values in two pages, and the two pages in the other order.\<close>

definition pages_12_3 :: "byte list" where
  "pages_12_3 = ([8, 2, 0] @ [1, 0, 0, 0, 2, 0, 0, 0]) @ ([4, 1, 0] @ [3, 0, 0, 0])"

definition pages_3_12 :: "byte list" where
  "pages_3_12 = ([4, 1, 0] @ [3, 0, 0, 0]) @ ([8, 2, 0] @ [1, 0, 0, 0, 2, 0, 0, 0])"

text \<open>A schema with a group: the root, an OPTIONAL group \<open>a\<close> with a REQUIRED leaf \<open>b\<close>
  and a REPEATED leaf \<open>c\<close>, and a REPEATED top-level leaf \<open>d\<close>; and the same schema as
  the constructor leaves it.\<close>

definition nested_schema :: "SchemaElement list" where
  "nested_schema =
     [\<lparr>name = ''schema'', repetition_type = None, num_children = Some 2, attrs = None\<rparr>,
      \<lparr>name = ''a'', repetition_type = Some OPTIONAL, num_children = Some 2, attrs = None\<rparr>,
      \<lparr>name = ''b'', repetition_type = Some REQUIRED, num_children = None, attrs = None\<rparr>,
      \<lparr>name = ''c'', repetition_type = Some REPEATED, num_children = Some 0, attrs = None\<rparr>,
      \<lparr>name = ''d'', repetition_type = Some REPEATED, num_children = None, attrs = None\<rparr>]"

definition nested_flat :: "SchemaElement list" where
  "nested_flat =
     [\<lparr>name = ''schema'', repetition_type = None, num_children = Some 2, attrs = None\<rparr>,
      \<lparr>name = ''a'', repetition_type = Some OPTIONAL, num_children = Some 2,
       attrs = Some \<lparr>children = [2, 3], path = [''a''], required = False,
                     maxdef = 1, maxrep = 0\<rparr>\<rparr>,
      \<lparr>name = ''b'', repetition_type = Some REQUIRED, num_children = Some 0,
       attrs = Some \<lparr>children = [], path = [''a'', ''b''], required = True,
                     maxdef = 1, maxrep = 1\<rparr>\<rparr>,
      \<lparr>name = ''c'', repetition_type = Some REPEATED, num_children = Some 0,
       attrs = Some \<lparr>children = [], path = [''a'', ''c''], required = False,
                     maxdef = 2, maxrep = 0\<rparr>\<rparr>,
      \<lparr>name = ''d'', repetition_type = Some REPEATED, num_children = Some 0,
       attrs = Some \<lparr>children = [], path = [''d''], required = False,
                     maxdef = 1, maxrep = 0\<rparr>\<rparr>]"

section \<open>Properties\<close>

subsection \<open>Little-endian views\<close>

lemma le_nat_bound: "le_nat bs < 256 ^ length bs"
proof (induction bs)
  case Nil
  then show ?case by simp
next
  case (Cons b bs)
  have "unat b < 256" using unsigned_less [of b] by simp
  with Cons show ?case by simp
qed

lemma nat_bytes_le_nat: "nat_bytes (length bs) (le_nat bs) = bs"
proof (induction bs)
  case Nil
  then show ?case by simp
next
  case (Cons b bs)
  have b: "unat b < 256" using unsigned_less [of b] by simp
  then have "(unat b + 256 * le_nat bs) mod 256 = unat b" by simp
  moreover from b have "(unat b + 256 * le_nat bs) div 256 = le_nat bs" by simp
  ultimately show ?case using Cons by simp
qed

lemma length_chunks: "length (chunks w xs) = length xs div w"
  by (simp add: chunks_def)

lemma chunks_item_length: "c \<in> set (chunks w xs) \<Longrightarrow> length xs mod w = 0 \<Longrightarrow> length c = w"
proof -
  assume c: "c \<in> set (chunks w xs)" and m: "length xs mod w = 0"
  from c obtain i where i: "i < length xs div w" and ceq: "c = take w (drop (i * w) xs)"
    by (auto simp: chunks_def)
  from i have w0: "0 < w" by (cases w) auto
  from i have "Suc i \<le> length xs div w" by simp
  then have "Suc i * w \<le> (length xs div w) * w" by (rule mult_le_mono1)
  also have "\<dots> \<le> length xs" by simp
  finally have "i * w + w \<le> length xs" by simp
  with ceq show ?thesis by simp
qed

lemma concat_chunks: "length xs mod w = 0 \<Longrightarrow> 0 < w \<Longrightarrow> concat (chunks w xs) = xs"
proof (induction "length xs div w" arbitrary: xs)
  case 0
  then have "length xs = 0"
    by (metis div_eq_0_iff  mod_less_divisor mod_div_trivial div_mult_mod_eq mult_0 add_0 neq0_conv)
  then show ?case by (simp add: chunks_def)
next
  case (Suc n)
  let ?ys = "drop w xs"
  have len: "w \<le> length xs" using Suc.hyps(2) Suc.prems
    by (metis div_less not_less old.nat.distinct(2))
  have n: "n = length ?ys div w" using Suc.hyps(2) len Suc.prems
    by (simp add: le_div_geq)
  have m: "length ?ys mod w = 0" using Suc.prems len
    by (simp add: le_mod_geq)
  have IH: "concat (chunks w ?ys) = ?ys" using Suc.hyps(1) [OF n m Suc.prems(2)] .
  have "chunks w xs = take w xs # chunks w ?ys"
  proof -
    have "[0..<length xs div w] = 0 # map Suc [0..<n]"
      using Suc.hyps(2) by (metis map_Suc_upt upt_conv_Cons zero_less_Suc)
    then show ?thesis using n
      by (simp add: chunks_def comp_def add.commute)
  qed
  with IH show ?case by simp
qed

lemma word_round: "0 < k \<Longrightarrow> 8 * k = LENGTH('a::len) \<Longrightarrow> length c = k \<Longrightarrow>
   nat_bytes k (unat (word_of_nat (le_nat c) :: 'a word)) = c"
proof -
  assume k: "0 < k" and l: "8 * k = LENGTH('a)" and c: "length c = k"
  have "le_nat c < 256 ^ k" using le_nat_bound [of c] c by simp
  also have "(256::nat) ^ k = 2 ^ (8 * k)" by (simp add: power_mult)
  finally have "le_nat c < 2 ^ LENGTH('a)" using l by simp
  then have "unat (word_of_nat (le_nat c) :: 'a word) = le_nat c"
    by (simp add: unat_of_nat take_bit_nat_eq_self)
  then show ?thesis using nat_bytes_le_nat [of c] c by simp
qed


lemma view_words_round:
  fixes ws :: "('a::len) word list"
  assumes k: "0 < k" and l: "8 * k = LENGTH('a)" and len: "length data = L * k"
  shows "\<exists>ws :: 'a word list. view_words k data = Inr ws \<and> length ws = L \<and>
           concat (map (\<lambda>w. nat_bytes k (unat w)) ws) = data"
proof -
  have m: "length data mod k = 0" using len by simp
  let ?ws = "map (\<lambda>c. word_of_nat (le_nat c)) (chunks k data) :: 'a word list"
  have v: "view_words k data = Inr ?ws" using m by (simp add: view_words_def)
  have n: "length ?ws = L" using len k by (simp add: length_chunks)
  have "map (\<lambda>w. nat_bytes k (unat w)) ?ws = map (\<lambda>c. c) (chunks k data)"
    unfolding map_map comp_def
  proof (rule map_cong [OF refl])
    fix c assume "c \<in> set (chunks k data)"
    then have "length c = k" using m by (rule chunks_item_length)
    then show "nat_bytes k (unat (word_of_nat (le_nat c) :: 'a word)) = c"
      using k l by (rule word_round [rotated 2])
  qed
  then have "concat (map (\<lambda>w. nat_bytes k (unat w)) ?ws) = data"
    using concat_chunks [OF m k] by simp
  with v n show ?thesis by blast
qed

text \<open>
  Claim C4. A run of \<open>L * width\<close> bytes of PLAIN INT32, INT64, FLOAT or DOUBLE data
  (width 4, 8, 4, 8) decodes to an array of exactly \<open>L\<close> items, and writing the items
  back as little-endian bytes gives the source bytes again.
\<close>

theorem plain_fixed_width_round_trip:
  assumes t: "type metadata \<in> {INT32, INT64, FLOAT, DOUBLE}"
    and len: "length data = L * plain_width (type metadata)"
  shows "\<exists>arr. plain data metadata = Inr arr \<and> array_len arr = L \<and> tobytes arr = data"
proof -
  from t consider "type metadata = INT32" | "type metadata = INT64"
    | "type metadata = FLOAT" | "type metadata = DOUBLE" by auto
  then show ?thesis
  proof cases
    case 1
    with len have "length data = L * 4" by simp
    from view_words_round [where 'a = 32, of 4 data L, OF _ _ this]
    obtain ws :: "32 word list" where "view_words 4 data = Inr ws" "length ws = L"
      "concat (map (\<lambda>w. nat_bytes 4 (unat w)) ws) = data" by auto
    with 1 show ?thesis by (simp add: plain_def)
  next
    case 2
    with len have "length data = L * 8" by simp
    from view_words_round [where 'a = 64, of 8 data L, OF _ _ this]
    obtain ws :: "64 word list" where "view_words 8 data = Inr ws" "length ws = L"
      "concat (map (\<lambda>w. nat_bytes 8 (unat w)) ws) = data" by auto
    with 2 show ?thesis by (simp add: plain_def)
  next
    case 3
    with len have "length data = L * 4" by simp
    from view_words_round [where 'a = 32, of 4 data L, OF _ _ this]
    obtain ws :: "32 word list" where "view_words 4 data = Inr ws" "length ws = L"
      "concat (map (\<lambda>w. nat_bytes 4 (unat w)) ws) = data" by auto
    with 3 show ?thesis by (simp add: plain_def)
  next
    case 4
    with len have "length data = L * 8" by simp
    from view_words_round [where 'a = 64, of 8 data L, OF _ _ this]
    obtain ws :: "64 word list" where "view_words 8 data = Inr ws" "length ws = L"
      "concat (map (\<lambda>w. nat_bytes 8 (unat w)) ws) = data" by auto
    with 4 show ?thesis by (simp add: plain_def)
  qed
qed

theorem plain_fixed_width_round_trip_witness:
  "type md_int32 \<in> {INT32, INT64, FLOAT, DOUBLE} \<and>
   length [1,0,0,0, 2,0,0,0, 255,255,255,255 :: byte] = 3 * plain_width (type md_int32) \<and>
   (\<exists>arr. plain [1,0,0,0, 2,0,0,0, 255,255,255,255] md_int32 = Inr arr \<and>
      array_len arr = 3 \<and>
      tobytes arr = [1,0,0,0, 2,0,0,0, 255,255,255,255])"
proof -
  have t: "type md_int32 \<in> {INT32, INT64, FLOAT, DOUBLE}" by (simp add: md_int32_def)
  have l: "length [1,0,0,0, 2,0,0,0, 255,255,255,255 :: byte] = 3 * plain_width (type md_int32)"
    by (simp add: md_int32_def)
  from plain_fixed_width_round_trip [OF t l] t l show ?thesis by blast
qed

subsection \<open>Slices, and the constructor on the example files\<close>

lemma example_fields_loop:
  "fields_loop (example_schema rt) 0 [] =
     Inr ([1], [\<lparr>name = ''schema'', repetition_type = None, num_children = Some 1,
                            attrs = None\<rparr>, example_column rt])"
  by (simp add: fields_loop.simps [of _ 0] fields_loop.simps [of _ "Suc 0"] recurse.simps recurse_children.simps
      example_schema_def example_column_def example_attrs_def visit_def)

lemma view_words_4: "view_words 4 [a, b, c, d] = Inr [word_of_nat (le_nat [a, b, c, d])]"
  by (simp add: view_words_def chunks_def)


lemma py_slice_suffix:
  "ys \<noteq> [] \<Longrightarrow> py_slice_from (xs @ ys) (- int (length ys)) = ys"
  by (simp add: py_slice_from_def py_slice_def Let_def nat_add_distrib)

lemma py_slice_middle:
  "zs \<noteq> [] \<Longrightarrow>
     py_slice (xs @ ys @ zs) (- int (length ys + length zs)) (- int (length zs)) = ys"
  by (cases zs) (simp_all add: py_slice_def Let_def nat_add_distrib)

lemma py_slice_at:
  "py_slice (xs @ ys @ zs) (int (length xs)) (int (length xs) + int (length ys)) = ys"
  by (simp add: py_slice_def Let_def nat_add_distrib)

lemma example_init:
  "ParquetFile_init (Some (example_thriftpy (example_footer rt c nv)))
       (NumpyArray 1 [length (example_file pages)] (example_file pages))
     = Inr (example_ParquetFile pages rt c nv)"
proof -
  have s1: "py_slice (example_file pages) 0 4 = PAR1"
    by (simp add: py_slice_def example_file_def PAR1_def)
  have s2: "py_slice_from (example_file pages) (- 4) = PAR1"
    using py_slice_suffix [of PAR1 "PAR1 @ pages @ [0] @ [1, 0, 0, 0]"]
    by (simp add: example_file_def PAR1_def)
  have s3: "py_slice (example_file pages) (- 8) (- 4) = [1, 0, 0, 0]"
    using py_slice_middle [of PAR1 "PAR1 @ pages @ [0]" "[1, 0, 0, 0]"]
    by (simp add: example_file_def PAR1_def)
  show ?thesis
    by (simp add: ParquetFile_init_def init_memmap_def s1 s2 s3 view_words_4 example_thriftpy_def
        flatten_schema_def example_footer_def example_fields_loop example_ParquetFile_def)
qed

lemma example_read_page_memmap:
  assumes len: "int (length payload) = uint sz"
    and mm: "memmap = pre @ [sz, n, enc] @ payload @ post"
  shows "read_page (example_thriftpy ft) (Memmap memmap) (int (length pre))
           = (Inr (example_header sz n enc, payload, uint n), Memmap memmap,
              int (length pre) + 3 + uint sz)"
proof -
  have h: "py_slice memmap (int (length pre)) (int (length pre) + 3) = [sz, n, enc]"
    using py_slice_at [of pre "[sz, n, enc]" "payload @ post"] by (simp add: mm)
  have rd: "TFileTransport_memmap_read memmap 3 (int (length pre))
              = (Inr [sz, n, enc], int (length pre) + 3)"
    by (simp add: TFileTransport_memmap_read_def h) (simp add: mm)
  have p: "py_slice memmap (int (length pre) + 3) (int (length pre) + 3 + uint sz) = payload"
    using py_slice_at [of "pre @ [sz, n, enc]" payload post] len by (simp add: mm ac_simps)
  show ?thesis
    by (simp add: read_page_def read_page_memmap_def example_thriftpy_def
        example_PageHeader_read_def rd example_header_def p)
qed

lemma example_read_page_123:
  "read_page (example_thriftpy ft) (Memmap (example_file page_123)) 4
     = (Inr (example_header 12 3 0, [1,0,0,0, 2,0,0,0, 3,0,0,0], 3),
        Memmap (example_file page_123), 19)"
  using example_read_page_memmap [of "[1,0,0,0, 2,0,0,0, 3,0,0,0]" 12 "example_file page_123"
      PAR1 3 0 "[0] @ [1, 0, 0, 0] @ PAR1" ft]
  by (simp add: example_file_def page_123_def PAR1_def)

subsection \<open>A failure while the first page is processed\<close>

lemma page_loop_first_page_fails:
  assumes "start < ColumnMetaData.num_values md"
    and "read_page th h index = (Inr (header, compressed, n), h1, index1)"
    and "page_segments decompress_fn a md header compressed = Inl e"
  shows "page_loop th decompress_fn a md deflevels replevels data h index start segs
           = Some (Inl e, h1)"
  using assms by (subst page_loop.simps) simp

lemma page_segments_not_required:
  assumes "decompress_fn compressed (compressed_page_size header) (uncompressed_page_size header)
             = Inr uncompressed"
    and "\<not> required a"
  shows "page_segments decompress_fn a md header compressed = Inl (NotImplementedError [])"
  using assms by (simp add: page_segments_def bitwidth_def)

lemma example_find:
  "find_column [example_chunk c nv] (example_column rt) = Inr (Some (example_chunk c nv))"
  by (simp add: example_column_def example_attrs_def example_chunk_def md_int32_def)

lemma example_self_handle:
  "(example_ParquetFile pages rt c nv)\<lparr>handle := Memmap (example_file pages)\<rparr>
     = example_ParquetFile pages rt c nv"
  by (simp add: example_ParquetFile_def)

lemma column_first_page_error:
  assumes par: "\<not> parallel"
    and rg: "py_index (row_groups (footer self)) rowgroupid = Inr rg"
    and find: "find_column (columns rg) sc = Inr (Some footercolumn)"
    and sc: "attrs sc = Some a"
    and disp: "codec_dispatch snappy_module (codec (meta_data footercolumn)) = Inr decompress_fn"
    and start: "start_reader (handle self) (file_offset footercolumn) = Inr h0"
    and nv: "0 < ColumnMetaData.num_values (meta_data footercolumn)"
    and page: "read_page th h0 (file_offset footercolumn) = (Inr (header, compressed, n), h1, index1)"
    and seg: "page_segments decompress_fn a (meta_data footercolumn) header compressed = Inl e"
  shows "column th snappy_module self rowgroupid sc deflevels replevels data parallel
           = Some (Inl e, self\<lparr>handle := h1\<rparr>)"
proof -
  from nv page seg
  have "page_loop th decompress_fn a (meta_data footercolumn) deflevels replevels data h0
          (file_offset footercolumn) 0 ([], [], []) = Some (Inl e, h1)"
    by (rule page_loop_first_page_fails)
  then show ?thesis
    using par rg find sc disp start by (simp add: column_def)
qed

lemma example_column_first_page_error:
  assumes seg: "page_segments decompress_fn (example_attrs rt) (meta_data (example_chunk c nv))
                  (example_header sz n enc) payload = Inl e"
    and disp: "codec_dispatch snappy_module c = Inr decompress_fn"
    and nv: "0 < nv"
    and len: "int (length payload) = uint sz"
  shows "column (example_thriftpy ft) snappy_module
           (example_ParquetFile ([sz, n, enc] @ payload) rt c nv) 0 (example_column rt)
           deflevels replevels data False
         = Some (Inl e, example_ParquetFile ([sz, n, enc] @ payload) rt c nv)"
proof -
  let ?self = "example_ParquetFile ([sz, n, enc] @ payload) rt c nv"
  let ?mm = "example_file ([sz, n, enc] @ payload)"
  have "column (example_thriftpy ft) snappy_module ?self 0 (example_column rt)
          deflevels replevels data False = Some (Inl e, ?self\<lparr>handle := Memmap ?mm\<rparr>)"
  proof (rule column_first_page_error [where rg = "\<lparr>columns = [example_chunk c nv]\<rparr>"
        and footercolumn = "example_chunk c nv" and ?h0.0 = "Memmap ?mm" and a = "example_attrs rt"
        and decompress_fn = decompress_fn and header = "example_header sz n enc"
        and compressed = payload and n = "uint n" and ?index1.0 = "7 + uint sz"])
    show "\<not> False" by simp
    show "py_index (row_groups (footer ?self)) 0 = Inr \<lparr>columns = [example_chunk c nv]\<rparr>"
      by (simp add: py_index_def example_ParquetFile_def)
    show "find_column (columns \<lparr>columns = [example_chunk c nv]\<rparr>) (example_column rt)
            = Inr (Some (example_chunk c nv))"
      by (simp del: find_column.simps add: example_find)
    show "attrs (example_column rt) = Some (example_attrs rt)"
      by (simp add: example_column_def)
    show "codec_dispatch snappy_module (codec (meta_data (example_chunk c nv))) = Inr decompress_fn"
      using disp by (simp add: example_chunk_def)
    show "start_reader (handle ?self) (file_offset (example_chunk c nv)) = Inr (Memmap ?mm)"
      by (simp add: start_reader_def example_ParquetFile_def)
    show "0 < ColumnMetaData.num_values (meta_data (example_chunk c nv))"
      using nv by (simp add: example_chunk_def)
    show "read_page (example_thriftpy ft) (Memmap ?mm) (file_offset (example_chunk c nv))
            = (Inr (example_header sz n enc, payload, uint n), Memmap ?mm, 7 + uint sz)"
      using example_read_page_memmap [OF len, of ?mm PAR1 n enc "[0] @ [1, 0, 0, 0] @ PAR1" ft]
      by (simp add: example_file_def example_chunk_def PAR1_def)
    show "page_segments decompress_fn (example_attrs rt) (meta_data (example_chunk c nv))
            (example_header sz n enc) payload = Inl e"
      by (rule seg)
  qed
  then show ?thesis by (simp add: example_self_handle)
qed

subsection \<open>Reading a required INT32 column stored in one PLAIN page\<close>

lemma py_slice_from_0: "py_slice_from xs 0 = xs"
  by (simp add: py_slice_from_def py_slice_def)

lemma chunks_123:
  "chunks 4 [1,0,0,0, 2,0,0,0, 3,0,0,0 :: byte] = [[1,0,0,0],[2,0,0,0],[3,0,0,0]]"
  by (simp add: chunks_def upt_rec)

lemma plain_123:
  "type md = INT32 \<Longrightarrow> plain [1,0,0,0, 2,0,0,0, 3,0,0,0] md = Inr (Int32Array [1, 2, 3])"
  by (simp add: plain_def view_words_def chunks_123)



subsection \<open>Compression dispatch\<close>

text \<open>
  Claim C6. The dispatch on the codec gives the identity for UNCOMPRESSED, raises
  NotImplementedError for each of LZO, BROTLI, LZ4 and ZSTD, and raises AssertionError
  for every tag it does not name; the two are different exception classes, whatever
  their messages.
\<close>

theorem codec_dispatch_error_kinds:
  "(\<exists>d. codec_dispatch snappy_module UNCOMPRESSED = Inr d \<and>
        (\<forall>compressed cb ub. d compressed cb ub = Inr compressed)) \<and>
   (\<exists>m. codec_dispatch snappy_module LZO = Inl (NotImplementedError m)) \<and>
   (\<exists>m. codec_dispatch snappy_module BROTLI = Inl (NotImplementedError m)) \<and>
   (\<exists>m. codec_dispatch snappy_module LZ4 = Inl (NotImplementedError m)) \<and>
   (\<exists>m. codec_dispatch snappy_module ZSTD = Inl (NotImplementedError m)) \<and>
   (\<exists>m. codec_dispatch snappy_module (UnrecognizedCodec t) = Inl (AssertionError m)) \<and>
   (\<forall>m m'. NotImplementedError m \<noteq> AssertionError m')"
  by (simp add: codec_dispatch_def)

text \<open>An exception raised by the dispatch is what \<open>column\<close> raises, before any page is
  read.\<close>

lemma column_codec_failure:
  assumes "\<not> parallel"
    and "py_index (row_groups (footer self)) rowgroupid = Inr rg"
    and "find_column (columns rg) sc = Inr (Some footercolumn)"
    and "codec_dispatch snappy_module (codec (meta_data footercolumn)) = Inl e"
  shows "column th snappy_module self rowgroupid sc deflevels replevels data parallel
           = Some (Inl e, self)"
  using assms by (simp add: column_def)

subsection \<open>Columns that are not required\<close>

text \<open>
  Claim C5, as the code has it. For a column whose schema node is not REQUIRED (OPTIONAL
  or REPEATED), in a chunk with at least one value, \<open>column\<close> returns nothing: as soon
  as the first page has been read and decompressed it asks \<open>_bitwidth\<close> for the width
  of the definition levels, and \<open>_bitwidth\<close> raises NotImplementedError. This holds for
  every setting of the three switches; no definition-level array is ever produced.
\<close>

theorem column_not_required_raises_NotImplementedError:
  assumes par: "\<not> parallel"
    and rg: "py_index (row_groups (footer self)) rowgroupid = Inr rg"
    and find: "find_column (columns rg) sc = Inr (Some footercolumn)"
    and sc: "attrs sc = Some a" "\<not> required a"
    and disp: "codec_dispatch snappy_module (codec (meta_data footercolumn)) = Inr decompress_fn"
    and start: "start_reader (handle self) (file_offset footercolumn) = Inr h0"
    and nv: "0 < ColumnMetaData.num_values (meta_data footercolumn)"
    and page: "read_page th h0 (file_offset footercolumn) = (Inr (header, compressed, n), h1, index1)"
    and dec: "decompress_fn compressed (compressed_page_size header) (uncompressed_page_size header)
                = Inr uncompressed"
  shows "column th snappy_module self rowgroupid sc deflevels replevels data parallel
           = Some (Inl (NotImplementedError []), self\<lparr>handle := h1\<rparr>)"
proof -
  have "page_segments decompress_fn a (meta_data footercolumn) header compressed
          = Inl (NotImplementedError [])"
    using dec sc(2) by (rule page_segments_not_required)
  with par rg find sc(1) disp start nv page show ?thesis
    by (rule column_first_page_error)
qed

text \<open>The scenario of the claim: the example file with the column declared OPTIONAL
  and all three switches on.\<close>

theorem column_optional_counterexample:
  "column (example_thriftpy (example_footer OPTIONAL UNCOMPRESSED 3)) None
       (example_ParquetFile page_123 OPTIONAL UNCOMPRESSED 3) 0 (example_column OPTIONAL)
       True True True False
     = Some (Inl (NotImplementedError []), example_ParquetFile page_123 OPTIONAL UNCOMPRESSED 3)"
proof -
  let ?d = "\<lambda>compressed (compressedbytes :: int option) (uncompressedbytes :: int option).
              (Inr compressed :: error + byte list)"
  have seg: "page_segments ?d (example_attrs OPTIONAL) (meta_data (example_chunk UNCOMPRESSED 3))
               (example_header 12 3 0) [1,0,0,0, 2,0,0,0, 3,0,0,0] = Inl (NotImplementedError [])"
    by (rule page_segments_not_required [where uncompressed = "[1,0,0,0, 2,0,0,0, 3,0,0,0]"])
       (simp_all add: example_attrs_def)
  have disp: "codec_dispatch None UNCOMPRESSED = Inr ?d"
    by (simp add: codec_dispatch_def)
  from example_column_first_page_error [OF seg disp]
  show ?thesis by (simp add: page_123_def)
qed


theorem column_not_required_raises_NotImplementedError_witness:
  "\<not> False \<and>
   py_index (row_groups (footer (example_ParquetFile page_123 REPEATED UNCOMPRESSED 3))) 0
     = Inr \<lparr>columns = [example_chunk UNCOMPRESSED 3]\<rparr> \<and>
   find_column (columns \<lparr>columns = [example_chunk UNCOMPRESSED 3]\<rparr>) (example_column REPEATED)
     = Inr (Some (example_chunk UNCOMPRESSED 3)) \<and>
   attrs (example_column REPEATED) = Some (example_attrs REPEATED) \<and>
   \<not> required (example_attrs REPEATED) \<and>
   0 < ColumnMetaData.num_values (meta_data (example_chunk UNCOMPRESSED 3)) \<and>
   column (example_thriftpy (example_footer REPEATED UNCOMPRESSED 3)) None
       (example_ParquetFile page_123 REPEATED UNCOMPRESSED 3) 0 (example_column REPEATED)
       True False True False
     = Some (Inl (NotImplementedError []), example_ParquetFile page_123 REPEATED UNCOMPRESSED 3)"
proof -
  let ?self = "example_ParquetFile page_123 REPEATED UNCOMPRESSED 3"
  let ?fc = "example_chunk UNCOMPRESSED 3"
  let ?d = "\<lambda>compressed (compressedbytes :: int option) (uncompressedbytes :: int option).
              (Inr compressed :: error + byte list)"
  have par: "\<not> False" by simp
  have rg: "py_index (row_groups (footer ?self)) 0 = Inr \<lparr>columns = [?fc]\<rparr>"
    by (simp add: py_index_def example_ParquetFile_def)
  have find: "find_column (columns \<lparr>columns = [?fc]\<rparr>) (example_column REPEATED) = Inr (Some ?fc)"
    by (simp del: find_column.simps add: example_find)
  have sc: "attrs (example_column REPEATED) = Some (example_attrs REPEATED)"
    by (simp add: example_column_def)
  have nreq: "\<not> required (example_attrs REPEATED)" by (simp add: example_attrs_def)
  have disp: "codec_dispatch None (codec (meta_data ?fc)) = Inr ?d"
    by (simp add: codec_dispatch_def example_chunk_def)
  have start: "start_reader (handle ?self) (file_offset ?fc) = Inr (Memmap (example_file page_123))"
    by (simp add: start_reader_def example_ParquetFile_def)
  have nv: "0 < ColumnMetaData.num_values (meta_data ?fc)" by (simp add: example_chunk_def)
  have page: "read_page (example_thriftpy (example_footer REPEATED UNCOMPRESSED 3))
                (Memmap (example_file page_123)) (file_offset ?fc)
              = (Inr (example_header 12 3 0, [1,0,0,0, 2,0,0,0, 3,0,0,0], 3),
                 Memmap (example_file page_123), 19)"
    using example_read_page_123 by (simp add: example_chunk_def)
  have dec: "?d [1,0,0,0, 2,0,0,0, 3,0,0,0] (compressed_page_size (example_header 12 3 0))
               (uncompressed_page_size (example_header 12 3 0)) = Inr [1,0,0,0, 2,0,0,0, 3,0,0,0]"
    by simp
  from column_not_required_raises_NotImplementedError
    [OF par rg find sc nreq disp start nv page dec,
      where deflevels = True and replevels = False and data = True]
  have "column (example_thriftpy (example_footer REPEATED UNCOMPRESSED 3)) None ?self 0
          (example_column REPEATED) True False True False
        = Some (Inl (NotImplementedError []), ?self)"
    by (simp add: example_self_handle)
  with par rg find sc nreq nv show ?thesis by blast
qed

subsection \<open>GZIP pages\<close>

text \<open>The \<open>decompress\<close> that the GZIP branch defines raises NameError on every
  payload.\<close>

lemma gzip_decompress_NameError:
  "\<exists>d. codec_dispatch snappy_module GZIP = Inr d \<and>
       (\<forall>compressed cb ub. d compressed cb ub = Inl (NameError ''compresseddata''))"
  by (simp add: codec_dispatch_def)

text \<open>
  Claim C7. A GZIP chunk whose page holds a valid gzip member for the bytes of 1, 2, 3:
  the read raises NameError where the claim has the decompressed bytes.
\<close>

theorem column_gzip_raises_NameError:
  "column (example_thriftpy (example_footer REQUIRED GZIP 3)) None
       (example_ParquetFile page_gzip REQUIRED GZIP 3) 0 (example_column REQUIRED)
       True True True False
     = Some (Inl (NameError ''compresseddata''), example_ParquetFile page_gzip REQUIRED GZIP 3)"
proof -
  let ?d = "\<lambda>compressed (compressedbytes :: int option) (uncompressedbytes :: int option).
              (Inl (NameError ''compresseddata'') :: error + byte list)"
  have disp: "codec_dispatch None GZIP = Inr ?d"
    by (simp add: codec_dispatch_def)
  have seg: "page_segments ?d (example_attrs REQUIRED) (meta_data (example_chunk GZIP 3))
               (example_header 29 3 0)
               [31, 139, 8, 0, 0, 0, 0, 0, 2, 255, 99, 100, 96, 96, 96, 2, 98, 102, 32, 6, 0,
                147, 34, 224, 176, 12, 0, 0, 0] = Inl (NameError ''compresseddata'')"
    by (simp add: page_segments_def)
  from example_column_first_page_error [OF seg disp]
  show ?thesis by (simp add: page_gzip_def)
qed

subsection \<open>A column that is not in the row group\<close>

lemma column_not_found:
  assumes "\<not> parallel"
    and "py_index (row_groups (footer self)) rowgroupid = Inr rg"
    and "find_column (columns rg) sc = Inr None"
  shows "column th snappy_module self rowgroupid sc deflevels replevels data parallel
           = Some (Inl (NameError ''columnpath''), self)"
  using assms by (simp add: column_def)

lemma find_column_None_iff:
  "attrs sc = Some a \<Longrightarrow>
     find_column cs sc = Inr None \<longleftrightarrow> (\<forall>c \<in> set cs. path_in_schema (meta_data c) \<noteq> path a)"
  by (induction cs) auto

text \<open>
  Claim C8. When no chunk of the row group has the path of the schema node, the call
  returns no result; the exception that leaves \<open>column\<close> is the NameError of the
  unbound \<open>columnpath\<close>, not the AssertionError whose message was being built. Here at
  the example file, asked for a column \<open>y\<close> that it does not have.
\<close>

theorem column_not_found_raises_NameError:
  "column (example_thriftpy (example_footer REQUIRED UNCOMPRESSED 3)) None
       (example_ParquetFile page_123 REQUIRED UNCOMPRESSED 3) 0 missing_column
       True True True False
     = Some (Inl (NameError ''columnpath''), example_ParquetFile page_123 REQUIRED UNCOMPRESSED 3)"
  by (simp add: column_def py_index_def example_ParquetFile_def missing_column_def
      example_chunk_def md_int32_def)

subsection \<open>The page loop\<close>

lemma read_page_Inr:
  assumes "read_page th h index = (Inr (header, compressed, n), h1, index1)"
  shows "\<exists>dph. data_page_header header = Some dph \<and> DataPageHeader.num_values dph = n"
  using assms
  by (auto simp: read_page_def read_page_memmap_def read_page_file_def
      split: FileHandle.splits prod.splits sum.splits option.splits)

lemma read_page_memmap_handle:
  assumes "read_page th (Memmap memmap) index = (r, h1, index1)"
  shows "h1 = Memmap memmap"
  using assms by (auto simp: read_page_def split: prod.splits)

lemma page_segments_Inr:
  assumes "page_segments decompress_fn a md header compressed = Inr p"
  shows "\<exists>arr. p = (None, None, Some arr)"
  using assms
  by (auto simp: page_segments_def bitwidth_def
      split: sum.splits if_splits option.splits Encoding.splits)

text \<open>
  What a run of the loop that ends normally has done. The pages it consumed are exactly
  the tuples the generator yields; each was decoded into one value array, appended when
  \<open>data\<close> is on; the level lists are untouched; and a page is asked for exactly while
  the values counted so far are fewer than \<open>num_values\<close> of the chunk.
\<close>

lemma page_loop_run_aux:
  assumes "page_loop th decompress_fn a md deflevels replevels data h index start segs = Some r"
  shows "\<forall>segs' h' yielded. r = (Inr segs', h') \<longrightarrow>
     (\<exists>pages arrs.
        pagereader th (ColumnMetaData.num_values md) h index start yielded
          = Some (Inr (yielded @ pages), h') \<and>
        list_all2 (decoded decompress_fn a md) pages arrs \<and>
        segs' = (fst segs, fst (snd segs), snd (snd segs) @ (if data then arrs else [])) \<and>
        ColumnMetaData.num_values md \<le> start + sum_list (map page_values pages) \<and>
        (\<forall>k<length pages.
           start + sum_list (map page_values (take k pages)) < ColumnMetaData.num_values md))"
proof (rule page_loop.raw_induct [where P = "\<lambda>th decompress_fn a md deflevels replevels data h
      index start segs r.
     \<forall>segs' h' yielded. r = (Inr segs', h') \<longrightarrow>
     (\<exists>pages arrs.
        pagereader th (ColumnMetaData.num_values md) h index start yielded
          = Some (Inr (yielded @ pages), h') \<and>
        list_all2 (decoded decompress_fn a md) pages arrs \<and>
        segs' = (fst segs, fst (snd segs), snd (snd segs) @ (if data then arrs else [])) \<and>
        ColumnMetaData.num_values md \<le> start + sum_list (map page_values pages) \<and>
        (\<forall>k<length pages.
           start + sum_list (map page_values (take k pages)) < ColumnMetaData.num_values md))",
      OF _ assms], goal_cases)
  case (1 loop th decompress_fn a md deflevels replevels data h index start segs r)
  show ?case
  proof (intro allI impI)
    fix segs' h' yielded
    assume r: "r = (Inr segs', h')"
    show "\<exists>pages arrs.
        pagereader th (ColumnMetaData.num_values md) h index start yielded
          = Some (Inr (yielded @ pages), h') \<and>
        list_all2 (decoded decompress_fn a md) pages arrs \<and>
        segs' = (fst segs, fst (snd segs), snd (snd segs) @ (if data then arrs else [])) \<and>
        ColumnMetaData.num_values md \<le> start + sum_list (map page_values pages) \<and>
        (\<forall>k<length pages.
           start + sum_list (map page_values (take k pages)) < ColumnMetaData.num_values md)"
    proof (cases "start < ColumnMetaData.num_values md")
      case False
      with 1(2) r have "segs' = segs" "h' = h" by simp_all
      moreover from False
      have "pagereader th (ColumnMetaData.num_values md) h index start yielded
              = Some (Inr yielded, h)"
        by (subst pagereader.simps) simp
      ultimately show ?thesis using False
        by (intro exI [of _ "[]"]) simp
    next
      case True
      obtain res h1 index1 where rp: "read_page th h index = (res, h1, index1)"
        by (cases "read_page th h index") auto
      from 1(2) r True rp obtain header compressed n where
        res: "res = Inr (header, compressed, n)"
        by (cases res) auto
      from 1(2) r True rp res obtain pg where
        ps: "page_segments decompress_fn a md header compressed = Inr pg"
        by (cases "page_segments decompress_fn a md header compressed") auto
      from page_segments_Inr [OF ps] obtain arr where pg: "pg = (None, None, Some arr)" by blast
      let ?p = "(header, compressed, start, start + n)"
      let ?segs1 = "append_segments deflevels replevels data segs pg"
      from 1(2) r True rp res ps
      have rec: "loop th decompress_fn a md deflevels replevels data h1 index1 (start + n) ?segs1
                   = Some (Inr segs', h')"
        by simp
      from 1(1) [OF rec, rule_format, OF refl, of "yielded @ [?p]"]
      obtain pages arrs where
        pr: "pagereader th (ColumnMetaData.num_values md) h1 index1 (start + n) (yielded @ [?p])
               = Some (Inr ((yielded @ [?p]) @ pages), h')"
        and dec: "list_all2 (decoded decompress_fn a md) pages arrs"
        and sg: "segs' = (fst ?segs1, fst (snd ?segs1),
                          snd (snd ?segs1) @ (if data then arrs else []))"
        and tot: "ColumnMetaData.num_values md \<le> start + n + sum_list (map page_values pages)"
        and pre: "\<forall>k<length pages.
           start + n + sum_list (map page_values (take k pages)) < ColumnMetaData.num_values md"
        by blast
      from read_page_Inr [OF rp [unfolded res]] have pv: "page_values ?p = n"
        by (auto simp: page_values_def)
      have d0: "decoded decompress_fn a md ?p arr"
        using ps pg by (simp add: decoded_def page_header_def page_payload_def)
      have pr': "pagereader th (ColumnMetaData.num_values md) h index start yielded
               = Some (Inr (yielded @ (?p # pages)), h')"
        using True rp res pr by (subst pagereader.simps) simp
      have sg': "segs' = (fst segs, fst (snd segs),
                          snd (snd segs) @ (if data then arr # arrs else []))"
        using sg pg by (cases segs) (auto simp: append_segments_def append_segment_def)
      have pre': "\<forall>k<length (?p # pages).
           start + sum_list (map page_values (take k (?p # pages))) < ColumnMetaData.num_values md"
      proof (intro allI impI)
        fix k assume k: "k < length (?p # pages)"
        show "start + sum_list (map page_values (take k (?p # pages)))
                < ColumnMetaData.num_values md"
        proof (cases k)
          case 0
          then show ?thesis using True by simp
        next
          case (Suc j)
          with k have "j < length pages" by simp
          with pre have "start + n + sum_list (map page_values (take j pages))
                           < ColumnMetaData.num_values md" by blast
          then show ?thesis using Suc pv by simp
        qed
      qed
      show ?thesis
        apply (rule exI [of _ "?p # pages"])
        apply (rule exI [of _ "arr # arrs"])
        using pr' dec d0 sg' tot pv pre' by simp
    qed
  qed
qed

text \<open>On an array the loop hands back the handle it was given.\<close>

lemma page_loop_memmap_handle:
  assumes "page_loop th decompress_fn a md deflevels replevels data h index start segs = Some r"
  shows "\<forall>memmap. h = Memmap memmap \<longrightarrow> snd r = Memmap memmap"
proof (rule page_loop.raw_induct [where P = "\<lambda>th decompress_fn a md deflevels replevels data h
      index start segs r. \<forall>memmap. h = Memmap memmap \<longrightarrow> snd r = Memmap memmap",
      OF _ assms], goal_cases)
  case (1 loop th decompress_fn a md deflevels replevels data h index start segs r)
  show ?case
  proof (intro allI impI)
    fix memmap assume h: "h = Memmap memmap"
    show "snd r = Memmap memmap"
    proof (cases "start < ColumnMetaData.num_values md")
      case False
      with 1(2) h show ?thesis by auto
    next
      case True
      obtain res h1 index1 where rp: "read_page th h index = (res, h1, index1)"
        by (cases "read_page th h index") auto
      from read_page_memmap_handle [OF rp [unfolded h]] have h1: "h1 = Memmap memmap" .
      show ?thesis
      proof (cases res)
        case (Inl e)
        with 1(2) True rp h1 show ?thesis by auto
      next
        case (Inr t)
        obtain header compressed n where t: "t = (header, compressed, n)" by (cases t) auto
        show ?thesis
        proof (cases "page_segments decompress_fn a md header compressed")
          case (Inl e)
          with 1(2) True rp Inr t h1 show ?thesis by auto
        next
          case ps: (Inr pg)
          from 1(2) True rp Inr t ps
          have "loop th decompress_fn a md deflevels replevels data h1 index1 (start + n)
                  (append_segments deflevels replevels data segs pg) = Some r"
            by simp
          from 1(1) [OF this] h1 show ?thesis by blast
        qed
      qed
    qed
  qed
qed

text \<open>\<open>numpy.concatenate\<close> puts the bytes of the segments one after the other.\<close>

lemma concatenate_bytes:
  "concatenate arrs = Inr arr \<Longrightarrow>
     tobytes arr = concat (map tobytes arrs) \<and> array_len arr = sum_list (map array_len arrs)"
proof (induction arrs arbitrary: arr rule: concatenate.induct)
  case 1
  then show ?case by simp
next
  case (2 a)
  then show ?case by simp
next
  case (3 a b bs)
  from "3.prems" obtain r where r: "concatenate (b # bs) = Inr r" and ap: "append_array a r = Inr arr"
    by (auto split: sum.splits)
  from "3.IH" [OF r] have ih: "tobytes r = concat (map tobytes (b # bs))"
    "array_len r = sum_list (map array_len (b # bs))" by simp_all
  from ap have "tobytes arr = tobytes a @ tobytes r \<and> array_len arr = array_len a + array_len r"
    by (cases a; cases r) auto
  with ih show ?case by simp
qed

text \<open>A call of \<open>column\<close> that returns a tuple has gone through every stage.\<close>

lemma column_Inr:
  assumes "column th snappy_module self rowgroupid sc deflevels replevels data parallel
             = Some (Inr out, self')"
  shows "\<exists>rg footercolumn a decompress_fn h0 segs h1.
           \<not> parallel \<and>
           py_index (row_groups (footer self)) rowgroupid = Inr rg \<and>
           find_column (columns rg) sc = Inr (Some footercolumn) \<and>
           attrs sc = Some a \<and>
           codec_dispatch snappy_module (codec (meta_data footercolumn)) = Inr decompress_fn \<and>
           start_reader (handle self) (file_offset footercolumn) = Inr h0 \<and>
           page_loop th decompress_fn a (meta_data footercolumn) deflevels replevels data h0
             (file_offset footercolumn) 0 ([], [], []) = Some (Inr segs, h1) \<and>
           build_output deflevels replevels data segs = Inr out \<and>
           self' = self\<lparr>handle := h1\<rparr>"
  using assms
  by (auto simp: column_def split: if_splits sum.splits option.splits prod.splits)

subsection \<open>Running the loop on the example files\<close>

lemma page_loop_step:
  assumes "start < ColumnMetaData.num_values md"
    and "read_page th h index = (Inr (header, compressed, n), h1, index1)"
    and "page_segments decompress_fn a md header compressed = Inr (None, None, Some arr)"
  shows "page_loop th decompress_fn a md deflevels replevels data h index start (ds, rs, vs)
           = page_loop th decompress_fn a md deflevels replevels data h1 index1 (start + n)
               (ds, rs, if data then vs @ [arr] else vs)"
  using assms
  by (subst page_loop.simps) (simp add: append_segments_def append_segment_def)

lemma page_loop_done:
  assumes "\<not> start < ColumnMetaData.num_values md"
  shows "page_loop th decompress_fn a md deflevels replevels data h index start segs
           = Some (Inr segs, h)"
  using assms by (subst page_loop.simps) simp

lemma pagereader_step:
  assumes "start < nvalues"
    and "read_page th h index = (Inr (header, compressed, n), h1, index1)"
  shows "pagereader th nvalues h index start yielded
           = pagereader th nvalues h1 index1 (start + n)
               (yielded @ [(header, compressed, start, start + n)])"
  using assms by (subst pagereader.simps) simp

lemma pagereader_done:
  assumes "\<not> start < nvalues"
  shows "pagereader th nvalues h index start yielded = Some (Inr yielded, h)"
  using assms by (subst pagereader.simps) simp

lemma build_output_levels_empty:
  "build_output deflevels replevels data ([], [], vs) =
     (case output_slot data vs of
        Inl e \<Rightarrow> Inl e
      | Inr v \<Rightarrow> Inr ((if deflevels then [None] else []) @ (if replevels then [None] else []) @ v))"
  by (simp add: build_output_def output_slot_def split: sum.splits)

text \<open>Pages of the example files, decoded for the REQUIRED column.\<close>

lemma example_segments_int32:
  assumes "plain payload (meta_data (example_chunk UNCOMPRESSED nv)) = Inr arr"
  shows "page_segments (\<lambda>compressed cb ub. Inr compressed) (example_attrs REQUIRED)
           (meta_data (example_chunk UNCOMPRESSED nv)) (example_header sz n 0) payload
         = Inr (None, None, Some arr)"
  using assms
  by (simp add: page_segments_def example_attrs_def example_header_def py_slice_from_0)

lemma plain_12: "plain [1,0,0,0, 2,0,0,0] (meta_data (example_chunk c nv)) = Inr (Int32Array [1, 2])"
  by (simp add: plain_def view_words_def chunks_def upt_rec example_chunk_def md_int32_def)

lemma plain_3: "plain [3,0,0,0] (meta_data (example_chunk c nv)) = Inr (Int32Array [3])"
  by (simp add: plain_def view_words_def chunks_def upt_rec example_chunk_def md_int32_def)

lemma example_column_setup:
  assumes "codec_dispatch snappy_module c = Inr decompress_fn"
  shows "column th snappy_module (example_ParquetFile pages rt c nv) 0 (example_column rt)
           deflevels replevels data False
         = (case page_loop th decompress_fn (example_attrs rt) (meta_data (example_chunk c nv))
                  deflevels replevels data (Memmap (example_file pages)) 4 0 ([], [], []) of
              None \<Rightarrow> None
            | Some (Inl e, h1) \<Rightarrow> Some (Inl e, (example_ParquetFile pages rt c nv)\<lparr>handle := h1\<rparr>)
            | Some (Inr segs, h1) \<Rightarrow>
                Some (build_output deflevels replevels data segs,
                      (example_ParquetFile pages rt c nv)\<lparr>handle := h1\<rparr>))"
proof -
  have f: "find_column (columns \<lparr>columns = [example_chunk c nv]\<rparr>) (example_column rt)
             = Inr (Some (example_chunk c nv))"
    by (simp del: find_column.simps add: example_find)
  have i: "py_index (row_groups (footer (example_ParquetFile pages rt c nv))) 0
             = Inr \<lparr>columns = [example_chunk c nv]\<rparr>"
    by (simp add: py_index_def example_ParquetFile_def)
  have d: "codec_dispatch snappy_module (codec (meta_data (example_chunk c nv))) = Inr decompress_fn"
    using assms by (simp add: example_chunk_def)
  have a: "attrs (example_column rt) = Some (example_attrs rt)"
    by (simp add: example_column_def)
  have s: "start_reader (handle (example_ParquetFile pages rt c nv)) 4
             = Inr (Memmap (example_file pages))"
    by (simp add: start_reader_def example_ParquetFile_def)
  have o: "file_offset (example_chunk c nv) = 4" by (simp add: example_chunk_def)
  show ?thesis
    unfolding column_def by (simp only: i f d a s o if_False sum.case option.case)
qed

lemma codec_dispatch_UNCOMPRESSED:
  "codec_dispatch snappy_module UNCOMPRESSED = Inr (\<lambda>compressed cb ub. Inr compressed)"
  by (simp add: codec_dispatch_def)

lemma example_column_one_page:
  assumes "0 < nv" and "nv \<le> 3"
  shows "column (example_thriftpy ft) snappy_module
           (example_ParquetFile page_123 REQUIRED UNCOMPRESSED nv) 0 (example_column REQUIRED)
           deflevels replevels data False
         = Some (Inr ((if deflevels then [None] else []) @ (if replevels then [None] else []) @
                      (if data then [Some (Int32Array [1, 2, 3])] else [])),
                 example_ParquetFile page_123 REQUIRED UNCOMPRESSED nv)"
proof -
  let ?d = "\<lambda>compressed (cb :: int option) (ub :: int option). (Inr compressed :: error + byte list)"
  let ?md = "meta_data (example_chunk UNCOMPRESSED nv)"
  have nv: "ColumnMetaData.num_values ?md = nv" by (simp add: example_chunk_def)
  have seg: "page_segments ?d (example_attrs REQUIRED) ?md (example_header 12 3 0)
               [1,0,0,0, 2,0,0,0, 3,0,0,0] = Inr (None, None, Some (Int32Array [1, 2, 3]))"
    by (rule example_segments_int32) (simp add: plain_123 example_chunk_def md_int32_def)
  have "page_loop (example_thriftpy ft) ?d (example_attrs REQUIRED) ?md deflevels replevels data
          (Memmap (example_file page_123)) 4 0 ([], [], [])
        = page_loop (example_thriftpy ft) ?d (example_attrs REQUIRED) ?md deflevels replevels data
            (Memmap (example_file page_123)) 19 (0 + 3)
            ([], [], if data then [] @ [Int32Array [1, 2, 3]] else [])"
    using assms by (intro page_loop_step [OF _ example_read_page_123 seg]) (simp add: nv)
  also have "\<dots> = Some (Inr ([], [], if data then [] @ [Int32Array [1, 2, 3]] else []),
                         Memmap (example_file page_123))"
    using assms by (intro page_loop_done) (simp add: nv)
  finally show ?thesis
    by (simp add: example_column_setup [OF codec_dispatch_UNCOMPRESSED] build_output_levels_empty
        output_slot_def example_self_handle)
qed

lemma example_pagereader_one_page:
  assumes "0 < nv" and "nv \<le> 3"
  shows "pagereader (example_thriftpy ft) nv (Memmap (example_file page_123)) 4 0 []
         = Some (Inr [(example_header 12 3 0, [1,0,0,0, 2,0,0,0, 3,0,0,0], 0, 3)],
                 Memmap (example_file page_123))"
proof -
  have "pagereader (example_thriftpy ft) nv (Memmap (example_file page_123)) 4 0 []
        = pagereader (example_thriftpy ft) nv (Memmap (example_file page_123)) 19 (0 + 3)
            ([] @ [(example_header 12 3 0, [1,0,0,0, 2,0,0,0, 3,0,0,0], 0, 0 + 3)])"
    using assms by (intro pagereader_step [OF _ example_read_page_123]) simp
  also have "\<dots> = Some (Inr ([] @ [(example_header 12 3 0, [1,0,0,0, 2,0,0,0, 3,0,0,0], 0, 0 + 3)]),
                         Memmap (example_file page_123))"
    using assms by (intro pagereader_done) simp
  finally show ?thesis by simp
qed

lemma example_read_pages_12_3:
  "read_page (example_thriftpy ft) (Memmap (example_file pages_12_3)) 4
     = (Inr (example_header 8 2 0, [1,0,0,0, 2,0,0,0], 2), Memmap (example_file pages_12_3), 15)"
  "read_page (example_thriftpy ft) (Memmap (example_file pages_12_3)) 15
     = (Inr (example_header 4 1 0, [3,0,0,0], 1), Memmap (example_file pages_12_3), 22)"
  using example_read_page_memmap [of "[1,0,0,0, 2,0,0,0]" 8 "example_file pages_12_3"
      PAR1 2 0 "[4, 1, 0] @ [3, 0, 0, 0] @ [0] @ [1, 0, 0, 0] @ PAR1" ft]
    example_read_page_memmap [of "[3,0,0,0]" 4 "example_file pages_12_3"
      "PAR1 @ [8, 2, 0] @ [1,0,0,0, 2,0,0,0]" 1 0 "[0] @ [1, 0, 0, 0] @ PAR1" ft]
  by (simp_all add: example_file_def pages_12_3_def PAR1_def)

lemma example_read_pages_3_12:
  "read_page (example_thriftpy ft) (Memmap (example_file pages_3_12)) 4
     = (Inr (example_header 4 1 0, [3,0,0,0], 1), Memmap (example_file pages_3_12), 11)"
  "read_page (example_thriftpy ft) (Memmap (example_file pages_3_12)) 11
     = (Inr (example_header 8 2 0, [1,0,0,0, 2,0,0,0], 2), Memmap (example_file pages_3_12), 22)"
  using example_read_page_memmap [of "[3,0,0,0]" 4 "example_file pages_3_12"
      PAR1 1 0 "[8, 2, 0] @ [1,0,0,0, 2,0,0,0] @ [0] @ [1, 0, 0, 0] @ PAR1" ft]
    example_read_page_memmap [of "[1,0,0,0, 2,0,0,0]" 8 "example_file pages_3_12"
      "PAR1 @ [4, 1, 0] @ [3,0,0,0]" 2 0 "[0] @ [1, 0, 0, 0] @ PAR1" ft]
  by (simp_all add: example_file_def pages_3_12_def PAR1_def)

lemma example_column_12_3:
  "column (example_thriftpy ft) snappy_module
     (example_ParquetFile pages_12_3 REQUIRED UNCOMPRESSED 3) 0 (example_column REQUIRED)
     True True True False
   = Some (Inr [None, None, Some (Int32Array [1, 2, 3])],
           example_ParquetFile pages_12_3 REQUIRED UNCOMPRESSED 3)"
proof -
  let ?d = "\<lambda>compressed (cb :: int option) (ub :: int option). (Inr compressed :: error + byte list)"
  let ?md = "meta_data (example_chunk UNCOMPRESSED 3)"
  let ?h = "Memmap (example_file pages_12_3)"
  have nv: "ColumnMetaData.num_values ?md = 3" by (simp add: example_chunk_def)
  have s1: "page_segments ?d (example_attrs REQUIRED) ?md (example_header 8 2 0)
              [1,0,0,0, 2,0,0,0] = Inr (None, None, Some (Int32Array [1, 2]))"
    by (rule example_segments_int32) (rule plain_12)
  have s2: "page_segments ?d (example_attrs REQUIRED) ?md (example_header 4 1 0)
              [3,0,0,0] = Inr (None, None, Some (Int32Array [3]))"
    by (rule example_segments_int32) (rule plain_3)
  have "page_loop (example_thriftpy ft) ?d (example_attrs REQUIRED) ?md True True True ?h 4 0
          ([], [], [])
        = page_loop (example_thriftpy ft) ?d (example_attrs REQUIRED) ?md True True True ?h 15
            (0 + 2) ([], [], if True then [] @ [Int32Array [1, 2]] else [])"
    by (intro page_loop_step [OF _ example_read_pages_12_3(1) s1]) (simp add: nv)
  also have "\<dots> = page_loop (example_thriftpy ft) ?d (example_attrs REQUIRED) ?md True True True
                        ?h 15 2 ([], [], [Int32Array [1, 2]])"
    by simp
  also have "\<dots> = page_loop (example_thriftpy ft) ?d (example_attrs REQUIRED) ?md True True True
                        ?h 22 (2 + 1)
                        ([], [], if True then [Int32Array [1, 2]] @ [Int32Array [3]] else
                           [Int32Array [1, 2]])"
    by (intro page_loop_step [OF _ example_read_pages_12_3(2) s2]) (simp add: nv)
  also have "\<dots> = Some (Inr ([], [], if True then [Int32Array [1, 2]] @ [Int32Array [3]] else
                           [Int32Array [1, 2]]), ?h)"
    by (intro page_loop_done) (simp add: nv)
  finally show ?thesis
    by (simp add: example_column_setup [OF codec_dispatch_UNCOMPRESSED] build_output_levels_empty
        output_slot_def example_self_handle)
qed

lemma example_column_3_12:
  "column (example_thriftpy ft) snappy_module
     (example_ParquetFile pages_3_12 REQUIRED UNCOMPRESSED 3) 0 (example_column REQUIRED)
     True True True False
   = Some (Inr [None, None, Some (Int32Array [3, 1, 2])],
           example_ParquetFile pages_3_12 REQUIRED UNCOMPRESSED 3)"
proof -
  let ?d = "\<lambda>compressed (cb :: int option) (ub :: int option). (Inr compressed :: error + byte list)"
  let ?md = "meta_data (example_chunk UNCOMPRESSED 3)"
  let ?h = "Memmap (example_file pages_3_12)"
  have nv: "ColumnMetaData.num_values ?md = 3" by (simp add: example_chunk_def)
  have s1: "page_segments ?d (example_attrs REQUIRED) ?md (example_header 8 2 0)
              [1,0,0,0, 2,0,0,0] = Inr (None, None, Some (Int32Array [1, 2]))"
    by (rule example_segments_int32) (rule plain_12)
  have s2: "page_segments ?d (example_attrs REQUIRED) ?md (example_header 4 1 0)
              [3,0,0,0] = Inr (None, None, Some (Int32Array [3]))"
    by (rule example_segments_int32) (rule plain_3)
  have "page_loop (example_thriftpy ft) ?d (example_attrs REQUIRED) ?md True True True ?h 4 0
          ([], [], [])
        = page_loop (example_thriftpy ft) ?d (example_attrs REQUIRED) ?md True True True ?h 11
            (0 + 1) ([], [], if True then [] @ [Int32Array [3]] else [])"
    by (intro page_loop_step [OF _ example_read_pages_3_12(1) s2]) (simp add: nv)
  also have "\<dots> = page_loop (example_thriftpy ft) ?d (example_attrs REQUIRED) ?md True True True
                        ?h 11 1 ([], [], [Int32Array [3]])"
    by simp
  also have "\<dots> = page_loop (example_thriftpy ft) ?d (example_attrs REQUIRED) ?md True True True
                        ?h 22 (1 + 2)
                        ([], [], if True then [Int32Array [3]] @ [Int32Array [1, 2]] else
                           [Int32Array [3]])"
    by (intro page_loop_step [OF _ example_read_pages_3_12(2) s1]) (simp add: nv)
  also have "\<dots> = Some (Inr ([], [], if True then [Int32Array [3]] @ [Int32Array [1, 2]] else
                           [Int32Array [3]]), ?h)"
    by (intro page_loop_done) (simp add: nv)
  finally show ?thesis
    by (simp add: example_column_setup [OF codec_dispatch_UNCOMPRESSED] build_output_levels_empty
        output_slot_def example_self_handle)
qed

subsection \<open>The pages behind a returned tuple\<close>

lemma column_Inr_pages:
  assumes "column th snappy_module self rowgroupid sc deflevels replevels data parallel
             = Some (Inr out, self')"
  shows "\<exists>rg footercolumn a decompress_fn h0 pages arrs.
           py_index (row_groups (footer self)) rowgroupid = Inr rg \<and>
           find_column (columns rg) sc = Inr (Some footercolumn) \<and>
           attrs sc = Some a \<and>
           codec_dispatch snappy_module (codec (meta_data footercolumn)) = Inr decompress_fn \<and>
           start_reader (handle self) (file_offset footercolumn) = Inr h0 \<and>
           pagereader th (ColumnMetaData.num_values (meta_data footercolumn)) h0
             (file_offset footercolumn) 0 [] = Some (Inr pages, handle self') \<and>
           list_all2 (decoded decompress_fn a (meta_data footercolumn)) pages arrs \<and>
           ColumnMetaData.num_values (meta_data footercolumn) \<le> sum_list (map page_values pages) \<and>
           (\<forall>k<length pages. sum_list (map page_values (take k pages))
                                < ColumnMetaData.num_values (meta_data footercolumn)) \<and>
           build_output deflevels replevels data ([], [], if data then arrs else []) = Inr out"
proof -
  from column_Inr [OF assms] obtain rg footercolumn a decompress_fn h0 segs h1 where
    c: "py_index (row_groups (footer self)) rowgroupid = Inr rg"
      "find_column (columns rg) sc = Inr (Some footercolumn)"
      "attrs sc = Some a"
      "codec_dispatch snappy_module (codec (meta_data footercolumn)) = Inr decompress_fn"
      "start_reader (handle self) (file_offset footercolumn) = Inr h0"
    and loop: "page_loop th decompress_fn a (meta_data footercolumn) deflevels replevels data h0
             (file_offset footercolumn) 0 ([], [], []) = Some (Inr segs, h1)"
    and out: "build_output deflevels replevels data segs = Inr out"
    and self': "self' = self\<lparr>handle := h1\<rparr>"
    by blast
  from page_loop_run_aux [OF loop, rule_format, OF refl, of "[]"]
  obtain pages arrs where
    r: "pagereader th (ColumnMetaData.num_values (meta_data footercolumn)) h0
          (file_offset footercolumn) 0 [] = Some (Inr pages, h1)"
      "list_all2 (decoded decompress_fn a (meta_data footercolumn)) pages arrs"
      "segs = ([], [], if data then arrs else [])"
      "ColumnMetaData.num_values (meta_data footercolumn) \<le> sum_list (map page_values pages)"
      "\<forall>k<length pages. sum_list (map page_values (take k pages))
                            < ColumnMetaData.num_values (meta_data footercolumn)"
    by auto
  from self' have "handle self' = h1" by simp
  with c r out show ?thesis by blast
qed

lemma no_pages_iff:
  assumes "nv \<le> sum_list (map page_values pages)"
    and "\<forall>k<length pages. sum_list (map page_values (take k pages)) < (nv :: int)"
  shows "pages = [] \<longleftrightarrow> nv \<le> 0"
proof
  assume "pages = []"
  with assms(1) show "nv \<le> 0" by simp
next
  assume nv: "nv \<le> 0"
  show "pages = []"
  proof (rule ccontr)
    assume "pages \<noteq> []"
    then have "0 < length pages" by simp
    with assms(2) have "sum_list (map page_values (take 0 pages)) < nv" by blast
    with nv show False by simp
  qed
qed

subsection \<open>Pages stored one after the other\<close>

lemma py_slice_take_drop:
  "py_slice xs (int i) (int i + int l) = take l (drop i xs)"
proof (cases "i \<le> length xs")
  case True
  then show ?thesis
    by (simp add: py_slice_def Let_def min_def nat_add_distrib nat_diff_distrib take_all_iff)
next
  case False
  then show ?thesis by (simp add: py_slice_def Let_def min_def)
qed

lemma start_reader_at:
  "\<exists>h0. start_reader h (int off) = Inr h0 \<and> reader_at h off (h0, int off)"
  by (cases h) (simp_all add: start_reader_def reader_at_def file_seek_set_def)

lemma read_page_stored:
  assumes st: "reader_at h off (h', index)"
    and hd: "header_at th h off n header"
    and sz: "compressed_page_size header = Some (int (length payload))"
    and pl: "take (length payload) (drop (off + n) (file_bytes h)) = payload"
    and dph: "data_page_header header = Some dph"
  shows "\<exists>h1 index1.
           read_page th h' index = (Inr (header, payload, DataPageHeader.num_values dph), h1, index1) \<and>
           reader_at h (off + n + length payload) (h1, index1)"
proof (cases h)
  case (Memmap memmap)
  with st have h': "h' = Memmap memmap" "index = int off" by (simp_all add: reader_at_def)
  from hd Memmap have rd: "PageHeader_read_memmap th (TFileTransport_memmap_read memmap) (int off)
            = (Inr header, int (off + n))" by (simp add: header_at_def)
  from pl Memmap have p: "py_slice memmap (int (off + n)) (int (off + n) + int (length payload)) = payload"
    by (simp only: py_slice_take_drop) (simp add: file_bytes_def)
  show ?thesis
    using rd sz dph p unfolding h' Memmap
    by (simp add: read_page_def read_page_memmap_def reader_at_def)
next
  case (FileObj f)
  with st have h': "h' = FileObj \<lparr>content = content f, pos = off\<rparr>" by (simp add: reader_at_def)
  from hd FileObj have rd: "PageHeader_read_file th TFileTransport_file_read
      \<lparr>content = content f, pos = off\<rparr> = (Inr header, \<lparr>content = content f, pos = off + n\<rparr>)"
    by (simp add: header_at_def)
  from pl FileObj have p: "take (length payload) (drop (off + n) (content f)) = payload"
    by (simp add: file_bytes_def)
  have fr: "file_read (Some (int (length payload))) \<lparr>content = content f, pos = off + n\<rparr>
              = (payload, \<lparr>content = content f, pos = off + n + length payload\<rparr>)"
  proof -
    from p have "length (take (length payload) (drop (off + n) (content f))) = length payload"
      by simp
    then have "min (length (content f) - (off + n)) (length payload) = length payload"
      by (simp add: min.commute)
    with p show ?thesis by (simp add: file_read_def Let_def)
  qed
  show ?thesis
    using rd sz dph fr unfolding h' FileObj
    by (simp add: read_page_def read_page_file_def reader_at_def)
qed

lemma sum_stored_values_pos:
  "\<forall>p\<in>set ps. 0 < stored_values p \<Longrightarrow> 0 \<le> sum_list (map stored_values ps)"
  by (induction ps) auto

lemma page_values_yielded:
  "map page_values (yielded_pages start ps) = map stored_values ps"
  by (induction ps arbitrary: start) (simp_all add: page_values_def stored_values_def)

text \<open>The loop over pages that are stored one after the other, carry at least one value
  each and add up to the chunk's \<open>num_values\<close>: it reads exactly these pages, in order.\<close>

lemma page_loop_stored_pages:
  assumes "pages_at th h off ps"
    and "reader_at h off (h', index)"
    and "\<forall>p\<in>set ps. 0 < stored_values p"
    and "start + sum_list (map stored_values ps) = ColumnMetaData.num_values md"
    and "list_all2 (decodes_to decompress_fn a md) ps arrs"
  shows "\<exists>h1. page_loop th decompress_fn a md deflevels replevels data h' index start (ds, rs, vs)
                 = Some (Inr (ds, rs, if data then vs @ arrs else vs), h1) \<and>
              pagereader th (ColumnMetaData.num_values md) h' index start yielded
                 = Some (Inr (yielded @ yielded_pages start ps), h1)"
  using assms
proof (induction ps arbitrary: off h' index start vs yielded arrs)
  case Nil
  then have "\<not> start < ColumnMetaData.num_values md" "arrs = []" by simp_all
  then show ?case by (simp add: page_loop_done pagereader_done)
next
  case (Cons p ps)
  from Cons.prems(5) obtain arr arrs' where arrs: "arrs = arr # arrs'"
    and d0: "decodes_to decompress_fn a md p arr"
    and ds': "list_all2 (decodes_to decompress_fn a md) ps arrs'"
    by (auto simp: list_all2_Cons1)
  from Cons.prems(3) have pos: "0 < stored_values p" and pos': "\<forall>q\<in>set ps. 0 < stored_values q"
    by simp_all
  then obtain dph where dph: "data_page_header (stored_header p) = Some dph"
    and nv: "DataPageHeader.num_values dph = stored_values p"
    by (cases "data_page_header (stored_header p)") (auto simp: stored_values_def)
  from sum_stored_values_pos [OF pos'] Cons.prems(4) pos
  have lt: "start < ColumnMetaData.num_values md" by simp
  from Cons.prems(1) have
    hd: "header_at th h off (stored_header_size p) (stored_header p)"
    and sz: "compressed_page_size (stored_header p) = Some (int (length (stored_payload p)))"
    and pl: "take (length (stored_payload p)) (drop (off + stored_header_size p) (file_bytes h))
               = stored_payload p"
    and rest: "pages_at th h (off + stored_header_size p + length (stored_payload p)) ps"
    by simp_all
  from read_page_stored [OF Cons.prems(2) hd sz pl dph] nv obtain h1 index1 where
    rp: "read_page th h' index = (Inr (stored_header p, stored_payload p, stored_values p), h1, index1)"
    and st1: "reader_at h (off + stored_header_size p + length (stored_payload p)) (h1, index1)"
    by auto
  from d0 have seg: "page_segments decompress_fn a md (stored_header p) (stored_payload p)
                       = Inr (None, None, Some arr)"
    by (simp add: decodes_to_def)
  from Cons.prems(4) have tot: "start + stored_values p + sum_list (map stored_values ps)
                                  = ColumnMetaData.num_values md" by simp
  from Cons.IH [OF rest st1 pos' tot ds',
      of "if data then vs @ [arr] else vs"
         "yielded @ [(stored_header p, stored_payload p, start, start + stored_values p)]"]
  obtain h2 where
    l: "page_loop th decompress_fn a md deflevels replevels data h1 index1 (start + stored_values p)
          (ds, rs, if data then vs @ [arr] else vs)
        = Some (Inr (ds, rs, if data then (if data then vs @ [arr] else vs) @ arrs'
                              else (if data then vs @ [arr] else vs)), h2)"
    and r: "pagereader th (ColumnMetaData.num_values md) h1 index1 (start + stored_values p)
              (yielded @ [(stored_header p, stored_payload p, start, start + stored_values p)])
            = Some (Inr ((yielded @ [(stored_header p, stored_payload p, start, start + stored_values p)])
                         @ yielded_pages (start + stored_values p) ps), h2)"
    by blast
  have "page_loop th decompress_fn a md deflevels replevels data h' index start (ds, rs, vs)
          = Some (Inr (ds, rs, if data then vs @ arrs else vs), h2)"
    unfolding page_loop_step [OF lt rp seg] l by (simp add: arrs)
  moreover have "pagereader th (ColumnMetaData.num_values md) h' index start yielded
          = Some (Inr (yielded @ yielded_pages start (p # ps)), h2)"
    unfolding pagereader_step [OF lt rp] r by simp
  ultimately show ?case by blast
qed

lemma page_segments_plain_result:
  assumes "page_segments decompress_fn a md header compressed = Inr (None, None, Some arr)"
  shows "\<exists>bs. plain bs md = Inr arr"
  using assms
  by (auto simp: page_segments_def bitwidth_def
      split: sum.splits if_splits option.splits Encoding.splits)

lemma plain_dtype:
  assumes "plain bs md = Inr a" and "plain bs' md = Inr b"
  shows "dtype a = dtype b"
  using assms by (cases "type md") (auto simp: plain_def view_words_def view_records_def split: if_splits)

lemma append_array_dtype:
  "dtype a = dtype b \<Longrightarrow> \<exists>c. append_array a b = Inr c \<and> dtype c = dtype a"
  by (cases a; cases b) simp_all

lemma concatenate_same_dtype:
  "arrs \<noteq> [] \<Longrightarrow> \<forall>b\<in>set arrs. dtype b = t \<Longrightarrow> \<exists>r. concatenate arrs = Inr r \<and> dtype r = t"
proof (induction arrs rule: concatenate.induct)
  case 1
  then show ?case by simp
next
  case (2 a)
  then show ?case by simp
next
  case (3 a b bs)
  then obtain r where r: "concatenate (b # bs) = Inr r" "dtype r = t" by auto
  from "3.prems" have "dtype a = t" by simp
  with r append_array_dtype [of a r] show ?case by auto
qed

lemma concatenate_decoded:
  assumes "list_all2 (decodes_to decompress_fn a md) ps arrs" and "ps \<noteq> []"
  shows "\<exists>r. concatenate arrs = Inr r"
proof -
  from assms have ne: "arrs \<noteq> []" by (auto dest: list_all2_lengthD)
  then obtain a0 where a0: "a0 \<in> set arrs" by (cases arrs) auto
  have all: "\<forall>b\<in>set arrs. \<exists>bs. plain bs md = Inr b"
  proof
    fix b assume "b \<in> set arrs"
    then obtain i where i: "i < length arrs" "arrs ! i = b" by (auto simp: in_set_conv_nth)
    with assms(1) have "decodes_to decompress_fn a md (ps ! i) b"
      by (auto simp: list_all2_conv_all_nth)
    then show "\<exists>bs. plain bs md = Inr b"
      by (auto simp: decodes_to_def dest: page_segments_plain_result)
  qed
  from all a0 obtain bs0 where b0: "plain bs0 md = Inr a0" by blast
  have "\<forall>b\<in>set arrs. dtype b = dtype a0"
  proof
    fix b assume "b \<in> set arrs"
    with all obtain bs where "plain bs md = Inr b" by blast
    from plain_dtype [OF this b0] show "dtype b = dtype a0" .
  qed
  from concatenate_same_dtype [OF ne this] show ?thesis by blast
qed

lemma column_stored_pages:
  assumes rg: "py_index (row_groups (footer self)) rowgroupid = Inr rg"
    and find: "find_column (columns rg) sc = Inr (Some footercolumn)"
    and sc: "attrs sc = Some a"
    and disp: "codec_dispatch snappy_module (codec (meta_data footercolumn)) = Inr decompress_fn"
    and off: "file_offset footercolumn = int off"
    and layout: "pages_at th (handle self) off ps"
    and counts: "\<forall>p\<in>set ps. 0 < stored_values p"
    and total: "sum_list (map stored_values ps) = ColumnMetaData.num_values (meta_data footercolumn)"
    and dec: "list_all2 (decodes_to decompress_fn a (meta_data footercolumn)) ps arrs"
  shows "\<exists>h0 h1.
           start_reader (handle self) (file_offset footercolumn) = Inr h0 \<and>
           pagereader th (ColumnMetaData.num_values (meta_data footercolumn)) h0
             (file_offset footercolumn) 0 [] = Some (Inr (yielded_pages 0 ps), h1) \<and>
           column th snappy_module self rowgroupid sc deflevels replevels data False
             = Some (build_output deflevels replevels data ([], [], if data then arrs else []),
                     self\<lparr>handle := h1\<rparr>)"
proof -
  from start_reader_at [of "handle self" off] obtain h0 where
    s: "start_reader (handle self) (int off) = Inr h0"
    and r: "reader_at (handle self) off (h0, int off)" by blast
  from total have t: "0 + sum_list (map stored_values ps)
                        = ColumnMetaData.num_values (meta_data footercolumn)" by simp
  from page_loop_stored_pages [OF layout r counts t dec, of deflevels replevels data "[]" "[]" "[]" "[]"]
  obtain h1 where
    l: "page_loop th decompress_fn a (meta_data footercolumn) deflevels replevels data h0 (int off) 0
          ([], [], []) = Some (Inr ([], [], if data then arrs else []), h1)"
    and p: "pagereader th (ColumnMetaData.num_values (meta_data footercolumn)) h0 (int off) 0 []
          = Some (Inr (yielded_pages 0 ps), h1)"
    by auto
  have "column th snappy_module self rowgroupid sc deflevels replevels data False
          = Some (build_output deflevels replevels data ([], [], if data then arrs else []),
                  self\<lparr>handle := h1\<rparr>)"
    unfolding column_def by (simp only: rg find sc disp off s l if_False sum.case option.case prod.case)
  with s p off show ?thesis by auto
qed


subsection \<open>The constructor on a framed file\<close>









subsection \<open>The example decoder on the example files\<close>

lemma example_header_at:
  assumes "file_bytes h = pre @ [sz, n, enc] @ post"
  shows "header_at (example_thriftpy ft) h (length pre) 3 (example_header sz n enc)"
proof (cases h)
  case (Memmap memmap)
  with assms have mm: "memmap = pre @ [sz, n, enc] @ post" by (simp add: file_bytes_def)
  have s: "py_slice memmap (int (length pre)) (int (length pre) + 3) = [sz, n, enc]"
    using py_slice_at [of pre "[sz, n, enc]" post] by (simp add: mm)
  have rd: "TFileTransport_memmap_read memmap 3 (int (length pre))
              = (Inr [sz, n, enc], int (length pre) + 3)"
    by (simp add: TFileTransport_memmap_read_def s) (simp add: mm)
  show ?thesis
    by (simp add: Memmap header_at_def example_thriftpy_def example_PageHeader_read_def rd)
next
  case (FileObj f)
  with assms have c: "content f = pre @ [sz, n, enc] @ post" by (simp add: file_bytes_def)
  have rd: "TFileTransport_file_read 3 \<lparr>content = content f, pos = length pre\<rparr>
              = (Inr [sz, n, enc], \<lparr>content = content f, pos = length pre + 3\<rparr>)"
    by (simp add: TFileTransport_file_read_def file_read_def Let_def c)
  show ?thesis
    by (simp add: FileObj header_at_def example_thriftpy_def example_PageHeader_read_def rd)
qed

lemma example_pages_at:
  assumes "file_bytes h = pre @ [sz, n, enc] @ payload @ post"
    and "off = length pre"
    and "uint sz = int (length payload)"
    and "off' = off + 3 + length payload"
    and "pages_at (example_thriftpy ft) h off' ps"
  shows "pages_at (example_thriftpy ft) h off
           (\<lparr>stored_header_size = 3, stored_header = example_header sz n enc,
             stored_payload = payload\<rparr> # ps)"
  using example_header_at [OF assms(1), of ft] assms
  by (simp add: example_header_def)






subsection \<open>The shape of the returned tuple\<close>

text \<open>
  Claim C9, as the code has it. The tuple that \<open>column\<close> returns has one slot for each
  switch that is on, in the order definition levels, repetition levels, values; a switch
  that is off contributes no slot. A level slot that is present is always \<open>None\<close>. The
  values slot, when present, is \<open>None\<close> exactly when the chunk declares no values (so
  that no page is read), and an array otherwise.
\<close>

theorem column_result_slots:
  assumes "column th snappy_module self rowgroupid sc deflevels replevels data parallel
             = Some (Inr out, self')"
  shows "\<exists>rg footercolumn v.
           py_index (row_groups (footer self)) rowgroupid = Inr rg \<and>
           find_column (columns rg) sc = Inr (Some footercolumn) \<and>
           out = (if deflevels then [None] else []) @ (if replevels then [None] else []) @
                 (if data then [v] else []) \<and>
           (data \<longrightarrow> (v = None \<longleftrightarrow> ColumnMetaData.num_values (meta_data footercolumn) \<le> 0))"
proof -
  from column_Inr_pages [OF assms] obtain rg footercolumn a decompress_fn h0 pages arrs where
    c: "py_index (row_groups (footer self)) rowgroupid = Inr rg"
      "find_column (columns rg) sc = Inr (Some footercolumn)"
    and dec: "list_all2 (decoded decompress_fn a (meta_data footercolumn)) pages arrs"
    and tot: "ColumnMetaData.num_values (meta_data footercolumn) \<le> sum_list (map page_values pages)"
    and pre: "\<forall>k<length pages. sum_list (map page_values (take k pages))
                            < ColumnMetaData.num_values (meta_data footercolumn)"
    and out: "build_output deflevels replevels data ([], [], if data then arrs else []) = Inr out"
    by blast
  from no_pages_iff [OF tot pre]
  have np: "pages = [] \<longleftrightarrow> ColumnMetaData.num_values (meta_data footercolumn) \<le> 0" .
  from dec have len: "length pages = length arrs" by (rule list_all2_lengthD)
  then have ae: "arrs = [] \<longleftrightarrow> pages = []" by auto
  show ?thesis
  proof (cases data)
    case False
    with out have "out = (if deflevels then [None] else []) @ (if replevels then [None] else [])"
      by (simp add: build_output_levels_empty output_slot_def)
    with c False show ?thesis by auto
  next
    case True
    show ?thesis
    proof (cases "arrs = []")
      case e: True
      with out True
      have "out = (if deflevels then [None] else []) @ (if replevels then [None] else []) @ [None]"
        by (simp add: build_output_levels_empty output_slot_def)
      with c True e ae np show ?thesis by auto
    next
      case ne: False
      with out True obtain arr where
        "out = (if deflevels then [None] else []) @ (if replevels then [None] else []) @ [Some arr]"
        by (auto simp: build_output_levels_empty output_slot_def split: sum.splits)
      with c True ne ae np show ?thesis by auto
    qed
  qed
qed

theorem column_result_slots_witness:
  "column (example_thriftpy (example_footer REQUIRED UNCOMPRESSED 3)) None
       (example_ParquetFile page_123 REQUIRED UNCOMPRESSED 3) 0 (example_column REQUIRED)
       False False True False
     = Some (Inr [Some (Int32Array [1, 2, 3])],
             example_ParquetFile page_123 REQUIRED UNCOMPRESSED 3) \<and>
   (\<exists>rg footercolumn v.
      py_index (row_groups (footer (example_ParquetFile page_123 REQUIRED UNCOMPRESSED 3))) 0
        = Inr rg \<and>
      find_column (columns rg) (example_column REQUIRED) = Inr (Some footercolumn) \<and>
      [Some (Int32Array [1, 2, 3])]
        = (if False then [None] else []) @ (if False then [None] else []) @
          (if True then [v] else []) \<and>
      (True \<longrightarrow> (v = None \<longleftrightarrow> ColumnMetaData.num_values (meta_data footercolumn) \<le> 0)))"
proof -
  have c: "column (example_thriftpy (example_footer REQUIRED UNCOMPRESSED 3)) None
       (example_ParquetFile page_123 REQUIRED UNCOMPRESSED 3) 0 (example_column REQUIRED)
       False False True False
     = Some (Inr [Some (Int32Array [1, 2, 3])],
             example_ParquetFile page_123 REQUIRED UNCOMPRESSED 3)"
    using example_column_one_page [of 3 _ None False False True] by simp
  show ?thesis by (rule conjI [OF c column_result_slots [OF c]])
qed

text \<open>With \<open>deflevels\<close> off the example file gives a tuple of two slots, not three.\<close>

theorem column_switch_off_counterexample:
  "column (example_thriftpy (example_footer REQUIRED UNCOMPRESSED 3)) None
       (example_ParquetFile page_123 REQUIRED UNCOMPRESSED 3) 0 (example_column REQUIRED)
       False True True False
     = Some (Inr [None, Some (Int32Array [1, 2, 3])],
             example_ParquetFile page_123 REQUIRED UNCOMPRESSED 3)"
  using example_column_one_page [of 3 _ None False True True] by simp

subsection \<open>Pages and their concatenation\<close>

text \<open>
  Claim C3. Take a column chunk whose pages are stored one after the other from the chunk's
  \<open>file_offset\<close>, each page carrying at least one value, the \<open>num_values\<close> of the
  pages adding up to the chunk's \<open>num_values\<close>, and every page decodable. Then, for a
  handle of either kind, the generator yields exactly these pages in file order, so the sum
  of \<open>num_values\<close> over the yielded pages equals the chunk's \<open>num_values\<close>; and
  \<open>column\<close> with \<open>data\<close> on returns, its values slot holding the concatenation of
  the per-page value arrays in page order (\<open>None\<close> for a chunk without pages).
\<close>

theorem column_concatenates_stored_pages:
  assumes rg: "py_index (row_groups (footer self)) rowgroupid = Inr rg"
    and find: "find_column (columns rg) sc = Inr (Some footercolumn)"
    and sc: "attrs sc = Some a"
    and disp: "codec_dispatch snappy_module (codec (meta_data footercolumn)) = Inr decompress_fn"
    and off: "file_offset footercolumn = int off"
    and layout: "pages_at th (handle self) off ps"
    and counts: "\<forall>p\<in>set ps. 0 < stored_values p"
    and total: "sum_list (map stored_values ps) = ColumnMetaData.num_values (meta_data footercolumn)"
    and dec: "list_all2 (decodes_to decompress_fn a (meta_data footercolumn)) ps arrs"
  shows "\<exists>h0 h1 v.
           start_reader (handle self) (file_offset footercolumn) = Inr h0 \<and>
           pagereader th (ColumnMetaData.num_values (meta_data footercolumn)) h0
             (file_offset footercolumn) 0 [] = Some (Inr (yielded_pages 0 ps), h1) \<and>
           sum_list (map page_values (yielded_pages 0 ps))
             = ColumnMetaData.num_values (meta_data footercolumn) \<and>
           column th snappy_module self rowgroupid sc deflevels replevels True False
             = Some (Inr ((if deflevels then [None] else []) @ (if replevels then [None] else []) @ [v]),
                     self\<lparr>handle := h1\<rparr>) \<and>
           (ps = [] \<longrightarrow> v = None) \<and>
           (ps \<noteq> [] \<longrightarrow>
              (\<exists>arr. v = Some arr \<and> concatenate arrs = Inr arr \<and>
                     tobytes arr = concat (map tobytes arrs) \<and>
                     array_len arr = sum_list (map array_len arrs)))"
proof -
  from column_stored_pages [OF assms, of deflevels replevels True] obtain h0 h1 where
    s: "start_reader (handle self) (file_offset footercolumn) = Inr h0"
    and p: "pagereader th (ColumnMetaData.num_values (meta_data footercolumn)) h0
              (file_offset footercolumn) 0 [] = Some (Inr (yielded_pages 0 ps), h1)"
    and c: "column th snappy_module self rowgroupid sc deflevels replevels True False
              = Some (build_output deflevels replevels True ([], [], arrs), self\<lparr>handle := h1\<rparr>)"
    by auto
  have sm: "sum_list (map page_values (yielded_pages 0 ps))
              = ColumnMetaData.num_values (meta_data footercolumn)"
    by (simp add: page_values_yielded total)
  from dec have len: "length ps = length arrs" by (rule list_all2_lengthD)
  show ?thesis
  proof (cases "ps = []")
    case True
    with len have "arrs = []" by simp
    then have "build_output deflevels replevels True ([], [], arrs)
        = Inr ((if deflevels then [None] else []) @ (if replevels then [None] else []) @ [None])"
      by (simp add: build_output_levels_empty output_slot_def)
    with s p sm c True show ?thesis by auto
  next
    case False
    with len have ne: "arrs \<noteq> []" by auto
    from concatenate_decoded [OF dec False] obtain arr where cat: "concatenate arrs = Inr arr"
      by blast
    with ne have "build_output deflevels replevels True ([], [], arrs)
        = Inr ((if deflevels then [None] else []) @ (if replevels then [None] else []) @ [Some arr])"
      by (simp add: build_output_levels_empty output_slot_def)
    with s p sm c False cat concatenate_bytes [OF cat] show ?thesis by auto
  qed
qed

text \<open>Two pages holding 1, 2 and 3,
  read from a file object whose cursor is elsewhere: 1, 2, 3. The same two pages stored in
  the other order, read from an array: 3, 1, 2.\<close>

theorem column_concatenates_stored_pages_witness:
  "(\<exists>h1. column (example_thriftpy (example_footer REQUIRED UNCOMPRESSED 3)) None
            ((example_ParquetFile pages_12_3 REQUIRED UNCOMPRESSED 3)
               \<lparr>handle := FileObj \<lparr>content = example_file pages_12_3, pos = 18\<rparr>\<rparr>)
            0 (example_column REQUIRED) True True True False
          = Some (Inr [None, None, Some (Int32Array [1, 2, 3])],
                  (example_ParquetFile pages_12_3 REQUIRED UNCOMPRESSED 3)\<lparr>handle := h1\<rparr>)) \<and>
   (\<exists>h1. column (example_thriftpy (example_footer REQUIRED UNCOMPRESSED 3)) None
            (example_ParquetFile pages_3_12 REQUIRED UNCOMPRESSED 3)
            0 (example_column REQUIRED) True True True False
          = Some (Inr [None, None, Some (Int32Array [3, 1, 2])],
                  (example_ParquetFile pages_3_12 REQUIRED UNCOMPRESSED 3)\<lparr>handle := h1\<rparr>))"
proof -
  let ?th = "example_thriftpy (example_footer REQUIRED UNCOMPRESSED 3)"
  let ?d = "\<lambda>compressed (cb :: int option) (ub :: int option). (Inr compressed :: error + byte list)"
  let ?md = "meta_data (example_chunk UNCOMPRESSED 3)"
  let ?p12 = "\<lparr>stored_header_size = 3, stored_header = example_header 8 2 0,
               stored_payload = [1,0,0,0, 2,0,0,0]\<rparr>"
  let ?p3 = "\<lparr>stored_header_size = 3, stored_header = example_header 4 1 0,
              stored_payload = [3,0,0,0]\<rparr>"
  let ?f = "\<lparr>content = example_file pages_12_3, pos = 18\<rparr>"
  let ?selfS = "(example_ParquetFile pages_12_3 REQUIRED UNCOMPRESSED 3)\<lparr>handle := FileObj ?f\<rparr>"
  let ?selfA = "example_ParquetFile pages_3_12 REQUIRED UNCOMPRESSED 3"
  have rgS: "py_index (row_groups (footer ?selfS)) 0
               = Inr \<lparr>columns = [example_chunk UNCOMPRESSED 3]\<rparr>"
    and rgA: "py_index (row_groups (footer ?selfA)) 0
               = Inr \<lparr>columns = [example_chunk UNCOMPRESSED 3]\<rparr>"
    by (simp_all add: py_index_def example_ParquetFile_def)
  have find: "find_column (columns \<lparr>columns = [example_chunk UNCOMPRESSED 3]\<rparr>)
                (example_column REQUIRED) = Inr (Some (example_chunk UNCOMPRESSED 3))"
    by (simp del: find_column.simps add: example_find)
  have a: "attrs (example_column REQUIRED) = Some (example_attrs REQUIRED)"
    by (simp add: example_column_def)
  have disp: "codec_dispatch None (codec ?md) = Inr ?d"
    by (simp add: example_chunk_def codec_dispatch_def)
  have off: "file_offset (example_chunk UNCOMPRESSED 3) = int 4"
    by (simp add: example_chunk_def)
  have s12: "page_segments ?d (example_attrs REQUIRED) ?md (example_header 8 2 0)
               [1,0,0,0, 2,0,0,0] = Inr (None, None, Some (Int32Array [1, 2]))"
    by (rule example_segments_int32) (rule plain_12)
  have s3: "page_segments ?d (example_attrs REQUIRED) ?md (example_header 4 1 0)
              [3,0,0,0] = Inr (None, None, Some (Int32Array [3]))"
    by (rule example_segments_int32) (rule plain_3)
  have counts: "\<forall>p\<in>set ps. 0 < stored_values p" if "set ps = {?p12, ?p3}" for ps
    using that by (simp add: stored_values_def example_header_def)
  have total: "sum_list (map stored_values [?p12, ?p3]) = ColumnMetaData.num_values ?md"
    "sum_list (map stored_values [?p3, ?p12]) = ColumnMetaData.num_values ?md"
    by (simp_all add: stored_values_def example_header_def example_chunk_def)
  have layS: "pages_at ?th (handle ?selfS) 4 [?p12, ?p3]"
  proof -
    have b: "file_bytes (FileObj ?f)
               = PAR1 @ [8, 2, 0] @ [1,0,0,0, 2,0,0,0] @ ([4, 1, 0] @ [3, 0, 0, 0] @ [0, 1, 0, 0, 0] @ PAR1)"
      "file_bytes (FileObj ?f)
               = (PAR1 @ [8, 2, 0] @ [1,0,0,0, 2,0,0,0]) @ [4, 1, 0] @ [3, 0, 0, 0] @ ([0, 1, 0, 0, 0] @ PAR1)"
      by (simp_all add: file_bytes_def example_file_def pages_12_3_def)
    have "pages_at ?th (FileObj ?f) 15 [?p3]"
      by (rule example_pages_at [OF b(2), where off' = 22]) (simp_all add: PAR1_def)
    then have "pages_at ?th (FileObj ?f) 4 [?p12, ?p3]"
      by (rule example_pages_at [OF b(1), rotated 3]) (simp_all add: PAR1_def)
    then show ?thesis by simp
  qed
  have layA: "pages_at ?th (handle ?selfA) 4 [?p3, ?p12]"
  proof -
    let ?h = "Memmap (example_file pages_3_12)"
    have b: "file_bytes ?h
               = PAR1 @ [4, 1, 0] @ [3, 0, 0, 0] @ ([8, 2, 0] @ [1,0,0,0, 2,0,0,0] @ [0, 1, 0, 0, 0] @ PAR1)"
      "file_bytes ?h
               = (PAR1 @ [4, 1, 0] @ [3, 0, 0, 0]) @ [8, 2, 0] @ [1,0,0,0, 2,0,0,0] @ ([0, 1, 0, 0, 0] @ PAR1)"
      by (simp_all add: file_bytes_def example_file_def pages_3_12_def)
    have "pages_at ?th ?h 11 [?p12]"
      by (rule example_pages_at [OF b(2), where off' = 22]) (simp_all add: PAR1_def)
    then have "pages_at ?th ?h 4 [?p3, ?p12]"
      by (rule example_pages_at [OF b(1), rotated 3]) (simp_all add: PAR1_def)
    then show ?thesis by (simp add: example_ParquetFile_def)
  qed
  have decS: "list_all2 (decodes_to ?d (example_attrs REQUIRED) ?md) [?p12, ?p3]
                [Int32Array [1, 2], Int32Array [3]]"
    using s12 s3 by (simp add: decodes_to_def)
  have decA: "list_all2 (decodes_to ?d (example_attrs REQUIRED) ?md) [?p3, ?p12]
                [Int32Array [3], Int32Array [1, 2]]"
    using s12 s3 by (simp add: decodes_to_def)
  have "\<exists>h1. column ?th None ?selfS 0 (example_column REQUIRED) True True True False
          = Some (Inr [None, None, Some (Int32Array [1, 2, 3])],
                  (example_ParquetFile pages_12_3 REQUIRED UNCOMPRESSED 3)\<lparr>handle := h1\<rparr>)"
    using column_concatenates_stored_pages [OF rgS find a disp off layS counts total(1) decS,
        of True True]
    by auto
  moreover
  have "\<exists>h1. column ?th None ?selfA 0 (example_column REQUIRED) True True True False
          = Some (Inr [None, None, Some (Int32Array [3, 1, 2])], ?selfA\<lparr>handle := h1\<rparr>)"
    using column_concatenates_stored_pages [OF rgA find a disp off layA counts total(2) decA,
        of True True]
    by auto
  ultimately show ?thesis by (rule conjI)
qed

subsection \<open>The required INT32 column in one PLAIN page, from the file to the values\<close>



subsection \<open>The state of the object after a read\<close>

text \<open>The object after a call is the object before it, except for the handle that the
  page loop hands back.\<close>

lemma column_state:
  assumes c: "column th snappy_module self rowgroupid sc deflevels replevels data parallel
                = Some (r, self')"
  obtains (unchanged) "self' = self"
    | (looped) footercolumn :: ColumnChunk and a decompress_fn h0 res h1 where
        "start_reader (handle self) (file_offset footercolumn) = Inr h0"
        "page_loop th decompress_fn a (meta_data footercolumn) deflevels replevels data h0
           (file_offset footercolumn) 0 ([], [], []) = Some (res, h1)"
        "self' = self\<lparr>handle := h1\<rparr>"
proof (cases parallel)
  case True
  with c have "self' = self" by (simp add: column_def)
  then show ?thesis by (rule unchanged)
next
  case np: False
  show ?thesis
  proof (cases "py_index (row_groups (footer self)) rowgroupid")
    case (Inl e)
    with c np have "self' = self" by (simp add: column_def)
  then show ?thesis by (rule unchanged)
  next
    case rg: (Inr rg)
    show ?thesis
    proof (cases "find_column (columns rg) sc")
      case (Inl e)
      with c np rg have "self' = self" by (simp add: column_def)
  then show ?thesis by (rule unchanged)
    next
      case f: (Inr found)
      show ?thesis
      proof (cases found)
        case None
        with c np rg f have "self' = self" by (simp add: column_def)
  then show ?thesis by (rule unchanged)
      next
        case fc: (Some footercolumn)
        show ?thesis
        proof (cases "codec_dispatch snappy_module (codec (meta_data footercolumn))")
          case (Inl e)
          with c np rg f fc have "self' = self" by (simp add: column_def)
  then show ?thesis by (rule unchanged)
        next
          case d: (Inr decompress_fn)
          show ?thesis
          proof (cases "attrs sc")
            case None
            with c np rg f fc d have "self' = self" by (simp add: column_def)
  then show ?thesis by (rule unchanged)
          next
            case a: (Some a)
            show ?thesis
            proof (cases "start_reader (handle self) (file_offset footercolumn)")
              case (Inl e)
              with c np rg f fc d a have "self' = self" by (simp add: column_def)
  then show ?thesis by (rule unchanged)
            next
              case s: (Inr h0)
              show ?thesis
              proof (cases "page_loop th decompress_fn a (meta_data footercolumn) deflevels
                  replevels data h0 (file_offset footercolumn) 0 ([], [], [])")
                case None
                with c np rg f fc d a s have "self' = self" by (simp add: column_def)
  then show ?thesis by (rule unchanged)
              next
                case l: (Some p)
                obtain res h1 where p: "p = (res, h1)" by (cases p) auto
                from c np rg f fc d a s l p have "self' = self\<lparr>handle := h1\<rparr>"
                  by (cases res) (simp_all add: column_def)
                moreover from l p
                have "page_loop th decompress_fn a (meta_data footercolumn) deflevels
                  replevels data h0 (file_offset footercolumn) 0 ([], [], []) = Some (res, h1)"
                  by simp
                ultimately show ?thesis using s by (intro looped [of footercolumn h0])
              qed
            qed
          qed
        qed
      qed
    qed
  qed
qed

text \<open>
  Claim C10. On an array-backed file a call of \<open>column\<close> leaves the object as it was
  (the bytes, the footer with the flattened schema, and \<open>fields\<close>), so the same call
  made again gives the same result.
\<close>

theorem column_memmap_unchanged:
  assumes h: "handle self = Memmap memmap"
    and c: "column th snappy_module self rowgroupid sc deflevels replevels data parallel
              = Some (r, self')"
  shows "self' = self \<and>
         column th snappy_module self' rowgroupid sc deflevels replevels data parallel
           = Some (r, self')"
proof -
  have "self' = self"
  proof (rule column_state [OF c])
    assume "self' = self"
    then show ?thesis .
  next
    fix footercolumn a decompress_fn h0 res h1
    assume s: "start_reader (handle self) (file_offset footercolumn) = Inr h0"
      and l: "page_loop th decompress_fn a (meta_data footercolumn) deflevels replevels data h0
              (file_offset footercolumn) 0 ([], [], []) = Some (res, h1)"
      and e: "self' = self\<lparr>handle := h1\<rparr>"
    from s h have "h0 = Memmap memmap" by (simp add: start_reader_def)
    with page_loop_memmap_handle [OF l] have "h1 = Memmap memmap" by simp
    with e h show ?thesis by simp
  qed
  with c show ?thesis by simp
qed

theorem column_memmap_unchanged_witness:
  "handle (example_ParquetFile pages_12_3 REQUIRED UNCOMPRESSED 3)
     = Memmap (example_file pages_12_3) \<and>
   column (example_thriftpy (example_footer REQUIRED UNCOMPRESSED 3)) None
       (example_ParquetFile pages_12_3 REQUIRED UNCOMPRESSED 3) 0 (example_column REQUIRED)
       True True True False
     = Some (Inr [None, None, Some (Int32Array [1, 2, 3])],
             example_ParquetFile pages_12_3 REQUIRED UNCOMPRESSED 3)"
proof -
  have h: "handle (example_ParquetFile pages_12_3 REQUIRED UNCOMPRESSED 3)
             = Memmap (example_file pages_12_3)"
    by (simp add: example_ParquetFile_def)
  from column_memmap_unchanged [OF h example_column_12_3] h show ?thesis by simp
qed

subsection \<open>The bookkeeping of the schema walk\<close>

lemma levels_from_visit: "levels_from (visit el path0 maxdef0 maxrep0) maxdef0 maxrep0"
  by (simp add: levels_from_def visit_def Let_def)

lemma levels_from_children:
  "levels_from (el\<lparr>attrs := Some (a\<lparr>children := cs\<rparr>)\<rparr>) md mr
     = levels_from (el\<lparr>attrs := Some a\<rparr>) md mr"
  by (simp add: levels_from_def)

lemma levels_from_attrs:
  "attrs el = Some a \<Longrightarrow> levels_from (el\<lparr>attrs := Some (a\<lparr>children := cs\<rparr>)\<rparr>) md mr
     = levels_from el md mr"
  by (simp add: levels_from_def)

text \<open>
  The walk, stated for both functions at once. \<open>recurse\<close> at \<open>index\<close> consumes the
  elements \<open>index .. i2\<close>, leaves every other element alone, gives the element at
  \<open>index\<close> its levels from the bounds handed down, and gives every later element it
  consumes a parent among the elements consumed. The loop over the children of \<open>parent\<close>
  changes nothing of the parent but its list of children, which only grows.
\<close>

lemma recurse_walk:
  "recurse sch index path0 maxdef0 maxrep0 = Inr (i2, sch2) \<Longrightarrow>
     index \<le> i2 \<and> i2 < length sch \<and> length sch2 = length sch \<and>
     (\<forall>j. j < index \<or> i2 < j \<longrightarrow> sch2 ! j = sch ! j) \<and>
     levels_from (sch2 ! index) maxdef0 maxrep0 \<and>
     repetition_type (sch2 ! index) = repetition_type (sch ! index) \<and>
     (\<forall>j. index < j \<and> j \<le> i2 \<longrightarrow>
        repetition_type (sch2 ! j) = repetition_type (sch ! j) \<and>
        (\<exists>p. index \<le> p \<and> p < j \<and> child_of sch2 p j))"
  "recurse_children sch parent index k = Inr (i2, sch2) \<Longrightarrow>
     parent \<le> index \<Longrightarrow> index < length sch \<Longrightarrow> attrs (sch ! parent) = Some a \<Longrightarrow>
     index \<le> i2 \<and> i2 < length sch \<and> length sch2 = length sch \<and>
     (\<forall>j. j \<noteq> parent \<and> (j \<le> index \<or> i2 < j) \<longrightarrow> sch2 ! j = sch ! j) \<and>
     (\<exists>cs. set (children a) \<subseteq> set cs \<and>
           sch2 ! parent = (sch ! parent)\<lparr>attrs := Some (a\<lparr>children := cs\<rparr>)\<rparr>) \<and>
     (\<forall>j. index < j \<and> j \<le> i2 \<longrightarrow>
        repetition_type (sch2 ! j) = repetition_type (sch ! j) \<and>
        (\<exists>p. parent \<le> p \<and> p < j \<and> child_of sch2 p j))"
proof (induction sch index path0 maxdef0 maxrep0 and sch parent index k
    arbitrary: i2 sch2 and i2 sch2 a rule: recurse_recurse_children.induct)
  case (1 sch index path0 maxdef0 maxrep0)
  from "1.prems" have lt: "\<not> length sch \<le> index"
    by (auto simp: recurse.simps split: if_splits)
  let ?el = "visit (sch ! index) path0 maxdef0 maxrep0"
  let ?sch1 = "sch[index := ?el]"
  from "1.prems" lt
  have rc: "recurse_children ?sch1 index index
          (case num_children (sch ! index) of None \<Rightarrow> 0 | Some x \<Rightarrow> nat x) = Inr (i2, sch2)"
    by (simp add: recurse.simps)
  from lt have e1: "?sch1 ! index = ?el" by simp
  obtain a0 where a0: "attrs ?el = Some a0"
    by (simp add: visit_def Let_def)
  have pre: "index \<le> index" "index < length ?sch1" "attrs (?sch1 ! index) = Some a0"
    using lt a0 by simp_all
  from "1.IH" [OF lt rc pre] have
    b: "index \<le> i2" "i2 < length ?sch1" "length sch2 = length ?sch1"
    and fr: "\<forall>j. j \<noteq> index \<and> (j \<le> index \<or> i2 < j) \<longrightarrow> sch2 ! j = ?sch1 ! j"
    and par: "\<exists>cs. set (children a0) \<subseteq> set cs \<and>
                sch2 ! index = (?sch1 ! index)\<lparr>attrs := Some (a0\<lparr>children := cs\<rparr>)\<rparr>"
    and ch: "\<forall>j. index < j \<and> j \<le> i2 \<longrightarrow>
               repetition_type (sch2 ! j) = repetition_type (?sch1 ! j) \<and>
               (\<exists>p. index \<le> p \<and> p < j \<and> child_of sch2 p j)"
    by blast+
  from par obtain cs where cs: "sch2 ! index = ?el\<lparr>attrs := Some (a0\<lparr>children := cs\<rparr>)\<rparr>"
    unfolding e1 by blast
  have lv: "levels_from (sch2 ! index) maxdef0 maxrep0"
    unfolding cs using levels_from_attrs [OF a0] levels_from_visit by simp
  have rt: "repetition_type (sch2 ! index) = repetition_type (sch ! index)"
    unfolding cs by (simp add: visit_def Let_def)
  have fr': "\<forall>j. j < index \<or> i2 < j \<longrightarrow> sch2 ! j = sch ! j"
  proof (intro allI impI)
    fix j assume j: "j < index \<or> i2 < j"
    with b(1) have "j \<noteq> index" "j \<le> index \<or> i2 < j" by auto
    with fr have "sch2 ! j = ?sch1 ! j" by blast
    with \<open>j \<noteq> index\<close> show "sch2 ! j = sch ! j" by simp
  qed
  have ch': "\<forall>j. index < j \<and> j \<le> i2 \<longrightarrow>
               repetition_type (sch2 ! j) = repetition_type (sch ! j) \<and>
               (\<exists>p. index \<le> p \<and> p < j \<and> child_of sch2 p j)"
  proof (intro allI impI)
    fix j assume j: "index < j \<and> j \<le> i2"
    with ch have "repetition_type (sch2 ! j) = repetition_type (?sch1 ! j)"
      "\<exists>p. index \<le> p \<and> p < j \<and> child_of sch2 p j" by blast+
    moreover from j have "?sch1 ! j = sch ! j" by simp
    ultimately show "repetition_type (sch2 ! j) = repetition_type (sch ! j) \<and>
               (\<exists>p. index \<le> p \<and> p < j \<and> child_of sch2 p j)" by simp
  qed
  from b lv rt fr' ch' show ?case by simp
next
  case (2 sch parent index)
  from "2.prems"(1) have e: "i2 = index" "sch2 = sch" by (simp_all add: recurse_children.simps)
  have "sch ! parent = (sch ! parent)\<lparr>attrs := Some (a\<lparr>children := children a\<rparr>)\<rparr>"
    using "2.prems"(4) by (cases "sch ! parent") simp
  then have "\<exists>cs. set (children a) \<subseteq> set cs \<and>
           sch ! parent = (sch ! parent)\<lparr>attrs := Some (a\<lparr>children := cs\<rparr>)\<rparr>"
    by blast
  moreover have "\<forall>j. index < j \<and> j \<le> index \<longrightarrow>
        repetition_type (sch ! j) = repetition_type (sch ! j) \<and>
        (\<exists>p. parent \<le> p \<and> p < j \<and> child_of sch p j)"
    by (intro allI impI) linarith
  ultimately show ?case using "2.prems"(3) unfolding e by (intro conjI) simp_all
next
  case (3 sch parent index k)
  from "3.prems"(1) have lt: "\<not> length sch \<le> index + 1"
    by (auto simp: recurse_children.simps split: if_splits)
  note a = "3.prems"(4)
  note pi = "3.prems"(2)
  let ?sch1 = "sch[parent := append_child (sch ! parent) a (index + 1)]"
  from "3.prems"(1) lt a obtain i1 sch1 where
    r: "recurse ?sch1 (index + 1) (path a) (maxdef a) (maxrep a) = Inr (i1, sch1)"
    and c: "recurse_children sch1 parent i1 k = Inr (i2, sch2)"
    by (auto simp: recurse_children.simps split: sum.splits)
  from "3.IH"(1) [OF lt a r] have
    b1: "index + 1 \<le> i1" "i1 < length ?sch1" "length sch1 = length ?sch1"
    and fr1: "\<forall>j. j < index + 1 \<or> i1 < j \<longrightarrow> sch1 ! j = ?sch1 ! j"
    and lv1: "levels_from (sch1 ! (index + 1)) (maxdef a) (maxrep a)"
    and rt1: "repetition_type (sch1 ! (index + 1)) = repetition_type (?sch1 ! (index + 1))"
    and ch1: "\<forall>j. index + 1 < j \<and> j \<le> i1 \<longrightarrow>
               repetition_type (sch1 ! j) = repetition_type (?sch1 ! j) \<and>
               (\<exists>p. index + 1 \<le> p \<and> p < j \<and> child_of sch1 p j)"
    by blast+
  let ?a1 = "a\<lparr>children := children a @ [index + 1]\<rparr>"
  from pi lt have pl: "parent < length sch" by simp
  from pi fr1 have "sch1 ! parent = ?sch1 ! parent" by simp
  with pl have p1: "sch1 ! parent = (sch ! parent)\<lparr>attrs := Some ?a1\<rparr>"
    by (simp add: append_child_def)
  then have a1: "attrs (sch1 ! parent) = Some ?a1" by simp
  have pre: "parent \<le> i1" "i1 < length sch1" using pi b1 by simp_all
  from "3.IH"(2) [OF lt a r refl c pre a1] have
    b2: "i1 \<le> i2" "i2 < length sch1" "length sch2 = length sch1"
    and fr2: "\<forall>j. j \<noteq> parent \<and> (j \<le> i1 \<or> i2 < j) \<longrightarrow> sch2 ! j = sch1 ! j"
    and par2: "\<exists>cs. set (children ?a1) \<subseteq> set cs \<and>
                 sch2 ! parent = (sch1 ! parent)\<lparr>attrs := Some (?a1\<lparr>children := cs\<rparr>)\<rparr>"
    and ch2: "\<forall>j. i1 < j \<and> j \<le> i2 \<longrightarrow>
               repetition_type (sch2 ! j) = repetition_type (sch1 ! j) \<and>
               (\<exists>p. parent \<le> p \<and> p < j \<and> child_of sch2 p j)"
    by blast+
  from par2 obtain cs where cs: "set (children ?a1) \<subseteq> set cs"
    and p2: "sch2 ! parent = (sch ! parent)\<lparr>attrs := Some (a\<lparr>children := cs\<rparr>)\<rparr>"
    unfolding p1 by auto
  have bounds: "index \<le> i2" "i2 < length sch" "length sch2 = length sch"
    using b1 b2 by simp_all
  have frame: "\<forall>j. j \<noteq> parent \<and> (j \<le> index \<or> i2 < j) \<longrightarrow> sch2 ! j = sch ! j"
  proof (intro allI impI)
    fix j assume j: "j \<noteq> parent \<and> (j \<le> index \<or> i2 < j)"
    with b1 b2 have "j \<le> i1 \<or> i2 < j" "j < index + 1 \<or> i1 < j" by auto
    with j fr2 fr1 have "sch2 ! j = sch1 ! j" "sch1 ! j = ?sch1 ! j" by blast+
    with j show "sch2 ! j = sch ! j" by simp
  qed
  have parent': "\<exists>cs. set (children a) \<subseteq> set cs \<and>
           sch2 ! parent = (sch ! parent)\<lparr>attrs := Some (a\<lparr>children := cs\<rparr>)\<rparr>"
    using cs p2 by (intro exI [of _ cs]) auto
  have kids: "\<forall>j. index < j \<and> j \<le> i2 \<longrightarrow>
        repetition_type (sch2 ! j) = repetition_type (sch ! j) \<and>
        (\<exists>p. parent \<le> p \<and> p < j \<and> child_of sch2 p j)"
  proof (intro allI impI)
    fix j assume j: "index < j \<and> j \<le> i2"
    from j pi have jp: "j \<noteq> parent" by simp
    then have s1: "?sch1 ! j = sch ! j" by simp
    consider "j = index + 1" | "index + 1 < j" "j \<le> i1" | "i1 < j" using j by linarith
    then show "repetition_type (sch2 ! j) = repetition_type (sch ! j) \<and>
        (\<exists>p. parent \<le> p \<and> p < j \<and> child_of sch2 p j)"
    proof cases
      case 1
      from b1 pi fr2 have e: "sch2 ! (index + 1) = sch1 ! (index + 1)" by simp
      from cs have "index + 1 \<in> set cs" by simp
      moreover from lv1 have "levels_from (sch2 ! (index + 1)) (maxdef a) (maxrep a)"
        unfolding e .
      ultimately have "child_of sch2 parent (index + 1)"
        unfolding child_of_def p2 by simp
      moreover have "repetition_type (sch2 ! (index + 1)) = repetition_type (sch ! (index + 1))"
        using rt1 s1 unfolding e 1 by simp
      ultimately show ?thesis using pi unfolding 1 by (intro conjI exI [of _ parent]) simp_all
    next
      case 2
      with jp fr2 have e: "sch2 ! j = sch1 ! j" by simp
      from 2 ch1 obtain p where p: "index + 1 \<le> p" "p < j" "child_of sch1 p j"
        and rt: "repetition_type (sch1 ! j) = repetition_type (?sch1 ! j)" by blast
      from p 2 pi have "p \<noteq> parent" "p \<le> i1" by simp_all
      with fr2 have ep: "sch2 ! p = sch1 ! p" by simp
      from p(3) have "child_of sch2 p j" unfolding child_of_def e ep .
      with p pi rt s1 e show ?thesis by (intro conjI exI [of _ p]) simp_all
    next
      case 3
      with j ch2 have "repetition_type (sch2 ! j) = repetition_type (sch1 ! j)"
        "\<exists>p. parent \<le> p \<and> p < j \<and> child_of sch2 p j" by blast+
      moreover from 3 fr1 have "sch1 ! j = ?sch1 ! j" by simp
      ultimately show ?thesis using s1 by simp
    qed
  qed
  from bounds frame parent' kids show ?case by simp
qed

lemma recurse_repetition_type:
  assumes "recurse sch index path0 maxdef0 maxrep0 = Inr (i2, sch2)"
  shows "repetition_type (sch2 ! j) = repetition_type (sch ! j)"
proof -
  from recurse_walk(1) [OF assms] have
    fr: "\<forall>j. j < index \<or> i2 < j \<longrightarrow> sch2 ! j = sch ! j"
    and rt: "repetition_type (sch2 ! index) = repetition_type (sch ! index)"
    and ch: "\<forall>j. index < j \<and> j \<le> i2 \<longrightarrow> repetition_type (sch2 ! j) = repetition_type (sch ! j)"
    by blast+
  consider "j < index \<or> i2 < j" | "j = index" | "index < j \<and> j \<le> i2" by linarith
  then show ?thesis
  proof cases
    case 1
    with fr have "sch2 ! j = sch ! j" by blast
    then show ?thesis by simp
  next
    case 2
    with rt show ?thesis by simp
  next
    case 3
    with ch show ?thesis by simp
  qed
qed

lemma visited_from_parent_mono:
  assumes "visited_from_parent sch fs j"
    and "\<forall>k\<le>j. sch1 ! k = sch ! k"
    and "set fs \<subseteq> set fs1"
  shows "visited_from_parent sch1 fs1 j"
proof -
  from assms(2) have j: "sch1 ! j = sch ! j" by simp
  from assms(1) consider "j \<in> set fs" "levels_from (sch ! j) 0 0"
    | p where "p \<in> {1..<j}" "child_of sch p j"
    by (auto simp: visited_from_parent_def)
  then show ?thesis
  proof cases
    case 1
    with assms(3) j show ?thesis by (auto simp: visited_from_parent_def)
  next
    case 2
    from 2(1) assms(2) have p: "sch1 ! p = sch ! p" by simp
    from 2(2) have "child_of sch1 p j" unfolding child_of_def p j .
    with 2(1) show ?thesis by (auto simp: visited_from_parent_def)
  qed
qed

text \<open>The loop that collects the top-level fields: once it is over, every element but
  the root has been visited from its parent.\<close>

lemma fields_loop_walk:
  "fields_loop sch index fs = Inr (fs', sch') \<Longrightarrow>
     \<forall>j. 1 \<le> j \<and> j \<le> index \<longrightarrow> visited_from_parent sch fs j \<Longrightarrow>
     length sch' = length sch \<and>
     (\<forall>j. 1 \<le> j \<and> j < length sch \<longrightarrow> visited_from_parent sch' fs' j) \<and>
     (\<forall>j. repetition_type (sch' ! j) = repetition_type (sch ! j))"
proof (induction sch index fs rule: fields_loop.induct)
  case (1 sch index fs)
  show ?case
  proof (cases "index + 1 < length sch")
    case False
    with "1.prems"(1) have e: "fs' = fs" "sch' = sch" by (simp_all add: fields_loop.simps)
    from False "1.prems"(2) show ?thesis unfolding e by auto
  next
    case True
    with "1.prems"(1) obtain i1 sch1 where
      r: "recurse sch (index + 1) [] 0 0 = Inr (i1, sch1)"
      and l: "fields_loop sch1 i1 (fs @ [index + 1]) = Inr (fs', sch')"
      by (subst (asm) fields_loop.simps) (auto split: sum.splits)
    from recurse_walk(1) [OF r] have
      b: "index + 1 \<le> i1" "i1 < length sch" "length sch1 = length sch"
      and fr: "\<forall>j. j < index + 1 \<or> i1 < j \<longrightarrow> sch1 ! j = sch ! j"
      and lv: "levels_from (sch1 ! (index + 1)) 0 0"
      and ch: "\<forall>j. index + 1 < j \<and> j \<le> i1 \<longrightarrow> (\<exists>p. index + 1 \<le> p \<and> p < j \<and> child_of sch1 p j)"
      by blast+
    have inv: "\<forall>j. 1 \<le> j \<and> j \<le> i1 \<longrightarrow> visited_from_parent sch1 (fs @ [index + 1]) j"
    proof (intro allI impI)
      fix j assume j: "1 \<le> j \<and> j \<le> i1"
      consider "j \<le> index" | "j = index + 1" | "index + 1 < j" by linarith
      then show "visited_from_parent sch1 (fs @ [index + 1]) j"
      proof cases
        case 1
        with j "1.prems"(2) have v: "visited_from_parent sch fs j" by simp
        from 1 fr have "\<forall>k\<le>j. sch1 ! k = sch ! k" by simp
        have "set fs \<subseteq> set (fs @ [index + 1])" by auto
        from visited_from_parent_mono [OF v \<open>\<forall>k\<le>j. sch1 ! k = sch ! k\<close> this]
        show ?thesis .
      next
        case 2
        with lv show ?thesis by (simp add: visited_from_parent_def)
      next
        case 3
        with j ch obtain p where "index + 1 \<le> p" "p < j" "child_of sch1 p j" by blast
        then have "\<exists>p\<in>{1..<j}. child_of sch1 p j" by (intro bexI [of _ p]) simp_all
        then show ?thesis by (simp add: visited_from_parent_def)
      qed
    qed
    from "1.IH" [OF True r refl l inv] recurse_repetition_type [OF r] b
    show ?thesis by simp
  qed
qed

lemma nested_fields_loop: "fields_loop nested_schema 0 [] = Inr ([1, 4], nested_flat)"
  by (simp add: fields_loop.simps recurse.simps recurse_children.simps eval_nat_numeral
      nested_schema_def nested_flat_def visit_def append_child_def)


text \<open>
  Claim C2. After the constructor's walk over \<open>footer.schema\<close> has returned, every
  element but the root carries attributes with \<open>required\<close> telling whether its
  repetition type is REQUIRED, \<open>maxdef\<close> equal to the bound handed down plus 0 if required
  and 1 otherwise, and \<open>maxrep\<close> equal to the bound handed down plus 1 if required and 0
  otherwise. The bounds handed down are \<open>(0, 0)\<close> for an element listed in
  \<open>self.fields\<close>, and otherwise the \<open>maxdef\<close> and \<open>maxrep\<close> of an earlier element
  that lists it among its children.
\<close>

theorem schema_walk_bookkeeping:
  assumes "fields_loop sch0 0 [] = Inr (fs, sch)" and "1 \<le> i" and "i < length sch0"
  shows "\<exists>a maxdef0 maxrep0.
           attrs (sch ! i) = Some a \<and>
           required a = (repetition_type (sch0 ! i) = Some REQUIRED) \<and>
           maxdef a = maxdef0 + (if required a then 0 else 1) \<and>
           maxrep a = maxrep0 + (if required a then 1 else 0) \<and>
           (i \<in> set fs \<and> maxdef0 = 0 \<and> maxrep0 = 0 \<or>
            (\<exists>p pa. 1 \<le> p \<and> p < i \<and> attrs (sch ! p) = Some pa \<and> i \<in> set (children pa) \<and>
                    maxdef0 = maxdef pa \<and> maxrep0 = maxrep pa))"
proof -
  from fields_loop_walk [OF assms(1)] assms(2,3) have
    v: "visited_from_parent sch fs i"
    and rt: "repetition_type (sch ! i) = repetition_type (sch0 ! i)"
    by simp_all
  from v consider "i \<in> set fs" "levels_from (sch ! i) 0 0"
    | p where "p \<in> {1..<i}" "child_of sch p i"
    by (auto simp: visited_from_parent_def)
  then show ?thesis
  proof cases
    case 1
    from 1(2) obtain a where "attrs (sch ! i) = Some a"
      "required a = (repetition_type (sch ! i) = Some REQUIRED)"
      "maxdef a = 0 + (if required a then 0 else 1)"
      "maxrep a = 0 + (if required a then 1 else 0)"
      by (auto simp: levels_from_def split: option.splits)
    with 1(1) rt show ?thesis by (intro exI [of _ a] exI [of _ 0]) simp
  next
    case 2
    from 2(2) obtain pa where pa: "attrs (sch ! p) = Some pa" "i \<in> set (children pa)"
      "levels_from (sch ! i) (maxdef pa) (maxrep pa)"
      by (auto simp: child_of_def split: option.splits)
    from pa(3) obtain a where "attrs (sch ! i) = Some a"
      "required a = (repetition_type (sch ! i) = Some REQUIRED)"
      "maxdef a = maxdef pa + (if required a then 0 else 1)"
      "maxrep a = maxrep pa + (if required a then 1 else 0)"
      by (auto simp: levels_from_def split: option.splits)
    with 2(1) pa(1,2) rt show ?thesis
      by (intro exI [of _ a] exI [of _ "maxdef pa"] exI [of _ "maxrep pa"]) auto
  qed
qed

text \<open>In the schema with a group, the REPEATED leaf \<open>c\<close> under the OPTIONAL group \<open>a\<close>
  has \<open>maxdef = 2\<close> and \<open>maxrep = 0\<close>, and its REQUIRED sibling \<open>b\<close> has
  \<open>maxrep = 1\<close>.\<close>

theorem schema_walk_bookkeeping_witness:
  "fields_loop nested_schema 0 [] = Inr ([1, 4], nested_flat) \<and>
   (\<exists>a maxdef0 maxrep0.
      attrs (nested_flat ! 3) = Some a \<and>
      required a = (repetition_type (nested_schema ! 3) = Some REQUIRED) \<and>
      maxdef a = maxdef0 + (if required a then 0 else 1) \<and>
      maxrep a = maxrep0 + (if required a then 1 else 0) \<and>
      (3 \<in> set [1, 4 :: nat] \<and> maxdef0 = 0 \<and> maxrep0 = 0 \<or>
       (\<exists>p pa. 1 \<le> p \<and> p < 3 \<and> attrs (nested_flat ! p) = Some pa \<and> 3 \<in> set (children pa) \<and>
               maxdef0 = maxdef pa \<and> maxrep0 = maxrep pa)))"
proof -
  have l: "(1 :: nat) \<le> 3" "3 < length nested_schema" by (simp_all add: nested_schema_def)
  from schema_walk_bookkeeping [OF nested_fields_loop l] nested_fields_loop
  show ?thesis by (rule conjI [rotated])
qed

end
